theory Spec2Isabelle
  imports Complex_Main "HOL-Library.Sublist"
begin

section \<open>QuestionService of the Finance-IT app\<close>

text \<open>
  A shallow embedding of the question service (the pool of multiple-choice questions, the
  numeric question templates, \<open>getNextQuestion\<close> and \<open>getQuestionBatch\<close>).

  Conventions of the embedding:
  \<^item> A JavaScript \<open>number\<close> is a \<open>real\<close> with exact arithmetic; a number known to be
    integral (a result of \<open>Math.floor\<close> or \<open>Math.round\<close>, a count, an index) is an \<open>int\<close>.
    Rounding errors of IEEE doubles are not part of the model.
  \<^item> \<open>Math.random()\<close> and \<open>Date.now()\<close> read from the \<open>world\<close>: the sequence of values
    each of them is going to return, and how many have been consumed.
  \<^item> The module variable \<open>lastQuestionId\<close> is a field of the \<open>world\<close>, passed in and out.
  \<^item> A call returns \<open>None\<close> when it does not return (a re-roll loop that never ends),
    \<open>Some (Inl e)\<close> when it throws \<open>e\<close>, \<open>Some (Inr (v, w))\<close> when it returns \<open>v\<close> and leaves
    the world \<open>w\<close>.
\<close>

subsection \<open>The environment\<close>

datatype js_error = TypeError

record world =
  lastQuestionId :: "string option"
  random_values :: "nat \<Rightarrow> real"
  random_calls :: nat
  clock_values :: "nat \<Rightarrow> nat"
  clock_calls :: nat

definition Math_random :: "world \<Rightarrow> real \<times> world" where
  "Math_random w = (random_values w (random_calls w), w\<lparr>random_calls := random_calls w + 1\<rparr>)"

definition Date_now :: "world \<Rightarrow> nat \<times> world" where
  "Date_now w = (clock_values w (clock_calls w), w\<lparr>clock_calls := clock_calls w + 1\<rparr>)"

text \<open>\<open>Math.random()\<close> returns a value in the half-open interval from 0 to 1.\<close>

definition wf_random :: "world \<Rightarrow> bool" where
  "wf_random w = (\<forall>k. 0 \<le> random_values w k \<and> random_values w k < 1)"

definition Math_round :: "real \<Rightarrow> int" where
  "Math_round x = \<lfloor>x + 1 / 2\<rfloor>"

definition Math_pow :: "real \<Rightarrow> int \<Rightarrow> real" where
  "Math_pow x n = (if 0 \<le> n then x ^ nat n else 1 / x ^ nat (- n))"

text \<open>Reading an array at a number: \<open>undefined\<close> (here \<open>None\<close>) outside the array.\<close>

definition array_get :: "'a list \<Rightarrow> int \<Rightarrow> 'a option" where
  "array_get xs i = (if 0 \<le> i \<and> i < int (length xs) then Some (xs ! nat i) else None)"

subsection \<open>Numbers in template strings\<close>

text \<open>
  An integral number in a template literal is its decimal numeral; \<open>toLocaleString()\<close>
  groups the digits in threes (the \<open>en-US\<close> rendering). Both are built-ins of the
  platform, modelled for integral values.
\<close>

definition digit_char :: "nat \<Rightarrow> char" where
  "digit_char d = ''0123456789'' ! d"

fun show_nat :: "nat \<Rightarrow> string" where
  "show_nat n = (if n < 10 then [digit_char n] else show_nat (n div 10) @ [digit_char (n mod 10)])"

declare show_nat.simps [simp del]

definition toString :: "int \<Rightarrow> string" where
  "toString i = (if i < 0 then ''-'' @ show_nat (nat (- i)) else show_nat (nat i))"

fun group_digits :: "string \<Rightarrow> string" where
  "group_digits ds =
     (if length ds \<le> 3 then ds
      else group_digits (take (length ds - 3) ds) @ '','' @ drop (length ds - 3) ds)"

declare group_digits.simps [simp del]

definition toLocaleString :: "int \<Rightarrow> string" where
  "toLocaleString i =
     (if i < 0 then ''-'' @ group_digits (show_nat (nat (- i))) else group_digits (show_nat (nat i)))"

subsection \<open>Question types\<close>

record MCQQuestion =
  mcq_id :: string
  question :: string
  options :: "string list"
  correctIndex :: int

record GeneratedQuestionResult =
  questionText :: string
  correctAnswer :: real
  tolerance :: "real option"

record GeneratedQuestionTemplate =
  tmpl_id :: string
  template :: string
  generator :: "world \<Rightarrow> GeneratedQuestionResult \<times> world"

record NumericQuestion =
  num_id :: string
  num_questionText :: string
  num_correctAnswer :: real
  num_tolerance :: real

datatype ResolvedQuestion = MCQ MCQQuestion | Numeric NumericQuestion

subsection \<open>The pool of multiple-choice questions\<close>

definition MCQ_POOL :: "MCQQuestion list" where
  \<open>MCQ_POOL =
   [\<lparr>mcq_id = ''mcq-1'',
     question = ''If interest rates rise, what typically happens to bond prices?'',
     options = [''They increase'', ''They decrease'', ''They stay the same'',
                ''They become volatile''],
     correctIndex = 1\<rparr>,
    \<lparr>mcq_id = ''mcq-2'',
     question = ''What does "diversification" primarily help reduce?'',
     options = [''Tax liability'', ''Unsystematic risk'', ''Inflation'', ''Transaction costs''],
     correctIndex = 1\<rparr>,
    \<lparr>mcq_id = ''mcq-3'',
     question = ''Which financial statement shows a company's revenues and expenses?'',
     options = [''Balance Sheet'', ''Cash Flow Statement'', ''Income Statement'',
                ''Statement of Equity''],
     correctIndex = 2\<rparr>,
    \<lparr>mcq_id = ''mcq-4'',
     question = ''What is the "Rule of 72" used to estimate?'',
     options = [''Time to double an investment'', ''Maximum portfolio loss'',
                ''Optimal asset allocation'', ''Tax deductions''],
     correctIndex = 0\<rparr>,
    \<lparr>mcq_id = ''mcq-5'',
     question = ''A P/E ratio compares a stock's price to its:'',
     options = [''Revenue'', ''Earnings per share'', ''Dividends'', ''Book value''],
     correctIndex = 1\<rparr>,
    \<lparr>mcq_id = ''mcq-6'',
     question = ''Which type of fund typically has the lowest management fees?'',
     options = [''Hedge fund'', ''Mutual fund'', ''Index fund'', ''Private equity fund''],
     correctIndex = 2\<rparr>,
    \<lparr>mcq_id = ''mcq-7'',
     question = ''What does GDP stand for?'',
     options = [''Gross Domestic Product'', ''General Domestic Pricing'',
                ''Growth Demand Percentage'', ''Gross Demand Profit''],
     correctIndex = 0\<rparr>,
    \<lparr>mcq_id = ''mcq-8'',
     question = ''What is a "bear market"?'',
     options = [''A market rising by 20% or more'', ''A market declining by 20% or more'',
                ''A market with high volatility'', ''A market with low trading volume''],
     correctIndex = 1\<rparr>,
    \<lparr>mcq_id = ''mcq-9'',
     question = ''Which asset is generally considered the safest?'',
     options = [''Corporate bonds'', ''Stocks'', ''U.S. Treasury bills'', ''Cryptocurrency''],
     correctIndex = 2\<rparr>,
    \<lparr>mcq_id = ''mcq-10'',
     question = ''Compound interest differs from simple interest because it:'',
     options = [''Uses a lower rate'', ''Is calculated only annually'',
                ''Earns interest on accumulated interest'',
                ''Applies only to savings accounts''],
     correctIndex = 2\<rparr>,
    \<lparr>mcq_id = ''mcq-11'',
     question = ''What does an ETF stand for?'',
     options = [''Electronic Transfer Fund'', ''Exchange-Traded Fund'', ''Equity Trust Fund'',
                ''Estimated Tax Filing''],
     correctIndex = 1\<rparr>,
    \<lparr>mcq_id = ''mcq-12'',
     question = ''Inflation causes the purchasing power of money to:'',
     options = [''Increase'', ''Decrease'', ''Remain unchanged'', ''Fluctuate randomly''],
     correctIndex = 1\<rparr>]\<close>

subsection \<open>Numeric question templates\<close>

definition randInt :: "int \<Rightarrow> int \<Rightarrow> world \<Rightarrow> int \<times> world" where
  "randInt lo hi w =
     (case Math_random w of (u, w') \<Rightarrow> (\<lfloor>u * real_of_int (hi - lo + 1)\<rfloor> + lo, w'))"

definition round2 :: "real \<Rightarrow> real" where
  "round2 n = real_of_int (Math_round (n * 100)) / 100"

text \<open>
  Each generator draws its parameters and then builds the question from them; the second
  step is a function of the parameters, named after the template.
\<close>

definition compound_interest_question :: "int \<Rightarrow> int \<Rightarrow> int \<Rightarrow> GeneratedQuestionResult" where
  "compound_interest_question principal' rate years =
     (let answer = round2 (real_of_int principal' * Math_pow (1 + real_of_int rate / 100) years)
      in \<lparr>questionText =
            ''You invest $'' @ toLocaleString principal' @ '' at '' @ toString rate
            @ ''% annual compound interest. How much will you have after '' @ toString years
            @ '' year'' @ (if years > 1 then ''s'' else '''') @ ''?'',
          correctAnswer = answer,
          tolerance = Some (answer * 0.01)\<rparr>)"

definition gen_compound_interest :: "world \<Rightarrow> GeneratedQuestionResult \<times> world" where
  "gen_compound_interest w =
     (case randInt 1 50 w of (p, w1) \<Rightarrow>
      case randInt 2 12 w1 of (rate, w2) \<Rightarrow>
      case randInt 1 10 w2 of (years, w3) \<Rightarrow>
        (compound_interest_question (p * 1000) rate years, w3))"

definition simple_interest_question :: "int \<Rightarrow> int \<Rightarrow> int \<Rightarrow> GeneratedQuestionResult" where
  "simple_interest_question principal' rate years =
     (let interest = round2 (real_of_int principal' * (real_of_int rate / 100) * real_of_int years);
          total = real_of_int principal' + interest
      in \<lparr>questionText =
            ''You deposit $'' @ toLocaleString principal' @ '' in an account earning ''
            @ toString rate @ ''% simple interest per year. What is the total amount after ''
            @ toString years @ '' year'' @ (if years > 1 then ''s'' else '''') @ ''?'',
          correctAnswer = total,
          tolerance = Some (total * 0.01)\<rparr>)"

definition gen_simple_interest :: "world \<Rightarrow> GeneratedQuestionResult \<times> world" where
  "gen_simple_interest w =
     (case randInt 1 20 w of (p, w1) \<Rightarrow>
      case randInt 3 10 w1 of (rate, w2) \<Rightarrow>
      case randInt 1 5 w2 of (years, w3) \<Rightarrow>
        (simple_interest_question (p * 1000) rate years, w3))"

definition rule_of_72_question :: "int \<Rightarrow> GeneratedQuestionResult" where
  "rule_of_72_question rate =
     (let answer = round2 (72 / real_of_int rate)
      in \<lparr>questionText =
            ''Using the Rule of 72, approximately how many years will it take to double your money at a ''
            @ toString rate @ ''% annual return? (Round to the nearest whole number)'',
          correctAnswer = real_of_int (Math_round answer),
          tolerance = Some 1\<rparr>)"

definition gen_rule_of_72 :: "world \<Rightarrow> GeneratedQuestionResult \<times> world" where
  "gen_rule_of_72 w = (case randInt 2 12 w of (rate, w1) \<Rightarrow> (rule_of_72_question rate, w1))"

definition future_value_question :: "int \<Rightarrow> int \<Rightarrow> int \<Rightarrow> GeneratedQuestionResult" where
  "future_value_question monthly rate years =
     (let r = real_of_int rate / 100 / 12;
          n = years * 12;
          fv = round2 (real_of_int monthly * ((Math_pow (1 + r) n - 1) / r))
      in \<lparr>questionText =
            ''You save $'' @ toString monthly @ '' per month for '' @ toString years
            @ '' years at '' @ toString rate
            @ ''% annual interest (compounded monthly). What is the total future value?'',
          correctAnswer = fv,
          tolerance = Some (fv * 0.01)\<rparr>)"

definition gen_future_value_annuity :: "world \<Rightarrow> GeneratedQuestionResult \<times> world" where
  "gen_future_value_annuity w =
     (case randInt 1 10 w of (m, w1) \<Rightarrow>
      case randInt 4 10 w1 of (rate, w2) \<Rightarrow>
      case randInt 2 10 w2 of (years, w3) \<Rightarrow>
        (future_value_question (m * 100) rate years, w3))"

definition NUMERIC_TEMPLATES :: "GeneratedQuestionTemplate list" where
  "NUMERIC_TEMPLATES =
   [\<lparr>tmpl_id = ''num-compound-interest'', template = ''Compound interest calculation'',
     generator = gen_compound_interest\<rparr>,
    \<lparr>tmpl_id = ''num-simple-interest'', template = ''Simple interest calculation'',
     generator = gen_simple_interest\<rparr>,
    \<lparr>tmpl_id = ''num-rule-of-72'', template = ''Rule of 72 estimation'',
     generator = gen_rule_of_72\<rparr>,
    \<lparr>tmpl_id = ''num-future-value-annuity'', template = ''Future value of monthly savings'',
     generator = gen_future_value_annuity\<rparr>]"

subsection \<open>Question selection\<close>

text \<open>
  The two re-roll loops of \<open>getNextQuestion\<close>. Reading the \<open>id\<close> of \<open>undefined\<close> (an index
  outside the catalog) throws a \<open>TypeError\<close>. Nothing bounds the number of re-rolls, so the
  loops are partial functions.
\<close>

partial_function (option) pick_question ::
  "MCQQuestion list \<Rightarrow> world \<Rightarrow> (js_error + MCQQuestion \<times> world) option" where
  "pick_question pool w =
     (case randInt 0 (int (length pool) - 1) w of (i, w1) \<Rightarrow>
        (case array_get pool i of
           None \<Rightarrow> Some (Inl TypeError)
         | Some q \<Rightarrow>
             if Some (mcq_id q) = lastQuestionId w1 \<and> length pool > 1
             then pick_question pool w1
             else Some (Inr (q, w1))))"

partial_function (option) pick_template ::
  "GeneratedQuestionTemplate list \<Rightarrow> world \<Rightarrow> (js_error + GeneratedQuestionTemplate \<times> world) option" where
  "pick_template tmpls w =
     (case randInt 0 (int (length tmpls) - 1) w of (i, w1) \<Rightarrow>
        (case array_get tmpls i of
           None \<Rightarrow> Some (Inl TypeError)
         | Some t \<Rightarrow>
             if Some (tmpl_id t) = lastQuestionId w1 \<and> length tmpls > 1
             then pick_template tmpls w1
             else Some (Inr (t, w1))))"

declare pick_question.simps [code]
declare pick_template.simps [code]

text \<open>
  \<open>getNextQuestion\<close>, with the two catalogs as parameters; the service itself runs it on
  \<open>MCQ_POOL\<close> and \<open>NUMERIC_TEMPLATES\<close>.
\<close>

definition getNextQuestion_in ::
  "MCQQuestion list \<Rightarrow> GeneratedQuestionTemplate list \<Rightarrow> world
     \<Rightarrow> (js_error + ResolvedQuestion \<times> world) option" where
  "getNextQuestion_in pool tmpls w =
     (case Math_random w of (u, w1) \<Rightarrow>
        if u < 0.6 then
          (case pick_question pool w1 of
             None \<Rightarrow> None
           | Some (Inl e) \<Rightarrow> Some (Inl e)
           | Some (Inr (q, w2)) \<Rightarrow>
               Some (Inr (MCQ q, w2\<lparr>lastQuestionId := Some (mcq_id q)\<rparr>)))
        else
          (case pick_template tmpls w1 of
             None \<Rightarrow> None
           | Some (Inl e) \<Rightarrow> Some (Inl e)
           | Some (Inr (t, w2)) \<Rightarrow>
               (case generator t w2 of (generated, w3) \<Rightarrow>
                  (case Date_now (w3\<lparr>lastQuestionId := Some (tmpl_id t)\<rparr>) of (now, w4) \<Rightarrow>
                     Some (Inr (Numeric
                       \<lparr>num_id = tmpl_id t @ ''-'' @ toString (int now),
                        num_questionText = questionText generated,
                        num_correctAnswer = correctAnswer generated,
                        num_tolerance =
                          (case tolerance generated of
                             Some tol \<Rightarrow> tol
                           | None \<Rightarrow> correctAnswer generated * 0.01)\<rparr>, w4))))))"

definition getNextQuestion :: "world \<Rightarrow> (js_error + ResolvedQuestion \<times> world) option" where
  "getNextQuestion = getNextQuestion_in MCQ_POOL NUMERIC_TEMPLATES"

text \<open>The \<open>for\<close> loop of \<open>getQuestionBatch\<close>: \<open>i\<close> counts up to \<open>count\<close>.\<close>

function batch_loop ::
  "MCQQuestion list \<Rightarrow> GeneratedQuestionTemplate list \<Rightarrow> int \<Rightarrow> int \<Rightarrow> ResolvedQuestion list
     \<Rightarrow> world \<Rightarrow> (js_error + ResolvedQuestion list \<times> world) option" where
  "batch_loop pool tmpls count i questions w =
     (if i < count then
        (case getNextQuestion_in pool tmpls w of
           None \<Rightarrow> None
         | Some (Inl e) \<Rightarrow> Some (Inl e)
         | Some (Inr (q, w')) \<Rightarrow> batch_loop pool tmpls count (i + 1) (questions @ [q]) w')
      else Some (Inr (questions, w)))"
  by pat_completeness auto
termination
  by (relation "measure (\<lambda>(pool, tmpls, count, i, questions, w). nat (count - i))") auto

declare batch_loop.simps [simp del]

definition getQuestionBatch_in ::
  "MCQQuestion list \<Rightarrow> GeneratedQuestionTemplate list \<Rightarrow> int \<Rightarrow> world
     \<Rightarrow> (js_error + ResolvedQuestion list \<times> world) option" where
  "getQuestionBatch_in pool tmpls count w = batch_loop pool tmpls count 0 [] w"

text \<open>The parameter \<open>count\<close> is optional and defaults to 10.\<close>

definition getQuestionBatch ::
  "int option \<Rightarrow> world \<Rightarrow> (js_error + ResolvedQuestion list \<times> world) option" where
  "getQuestionBatch count w =
     getQuestionBatch_in MCQ_POOL NUMERIC_TEMPLATES (case count of None \<Rightarrow> 10 | Some c \<Rightarrow> c) w"

section \<open>Notions used in the statements\<close>

text \<open>
  The second world is the first one after some more calls of \<open>Math.random()\<close>, and nothing else
  has changed.
\<close>

definition only_draws :: "world \<Rightarrow> world \<Rightarrow> bool" where
  "only_draws w w' =
     (lastQuestionId w' = lastQuestionId w \<and> random_values w' = random_values w
      \<and> random_calls w < random_calls w' \<and> clock_values w' = clock_values w
      \<and> clock_calls w' = clock_calls w)"

text \<open>
  Reading a decimal numeral back, to show that distinct numbers have distinct numerals.
\<close>

definition digit_value :: "char \<Rightarrow> nat" where
  "digit_value c = of_char c - 48"

definition read_nat :: "string \<Rightarrow> nat" where
  "read_nat s = foldl (\<lambda>a c. 10 * a + digit_value c) 0 s"

text \<open>
  A number of calls of \<open>getNextQuestion\<close> one after the other: the question each call returns,
  with the world it leaves.
\<close>

fun sequential_calls ::
  "MCQQuestion list \<Rightarrow> GeneratedQuestionTemplate list \<Rightarrow> nat \<Rightarrow> world
     \<Rightarrow> (js_error + (ResolvedQuestion \<times> world) list) option" where
  "sequential_calls pool tmpls 0 w = Some (Inr [])"
| "sequential_calls pool tmpls (Suc n) w =
     (case getNextQuestion_in pool tmpls w of
        None \<Rightarrow> None
      | Some (Inl e) \<Rightarrow> Some (Inl e)
      | Some (Inr (q, w')) \<Rightarrow>
          (case sequential_calls pool tmpls n w' of
             None \<Rightarrow> None
           | Some (Inl e) \<Rightarrow> Some (Inl e)
           | Some (Inr steps) \<Rightarrow> Some (Inr ((q, w') # steps))))"

text \<open>
  The batch such a run of calls yields: the questions in order, and the last world.
\<close>

definition batch_of_calls ::
  "world \<Rightarrow> (js_error + (ResolvedQuestion \<times> world) list) option
     \<Rightarrow> (js_error + ResolvedQuestion list \<times> world) option" where
  "batch_of_calls w r =
     (case r of
        None \<Rightarrow> None
      | Some (Inl e) \<Rightarrow> Some (Inl e)
      | Some (Inr steps) \<Rightarrow> Some (Inr (map fst steps, last (w # map snd steps))))"

text \<open>
  Worlds to run the service in. In \<open>example_world\<close> the clock does not advance between the
  calls (\<open>Date.now()\<close> counts milliseconds); \<open>example_numeric\<close> is the question its first call
  returns, and \<open>example_world1\<close>, \<open>example_world2\<close> and \<open>example_world3\<close> are the worlds
  that its first three calls leave.
\<close>

definition random_from :: "real list \<Rightarrow> nat \<Rightarrow> real" where
  "random_from xs k = (if k < length xs then xs ! k else 0)"

definition example_world :: world where
  "example_world =
     \<lparr>lastQuestionId = None,
      random_values = random_from [0.7, 0.5, 0.5, 0.1, 0, 0.7, 0.5, 0.5],
      random_calls = 0,
      clock_values = (\<lambda>k. 1700000000000),
      clock_calls = 0\<rparr>"

definition example_numeric :: NumericQuestion where
  "example_numeric =
     \<lparr>num_id = ''num-rule-of-72-1700000000000'',
      num_questionText = questionText (rule_of_72_question 7),
      num_correctAnswer = 10,
      num_tolerance = 1\<rparr>"

definition example_world1 :: world where
  "example_world1 = example_world\<lparr>lastQuestionId := Some ''num-rule-of-72'', random_calls := 3, clock_calls := 1\<rparr>"

definition example_world2 :: world where
  "example_world2 = example_world\<lparr>lastQuestionId := Some ''mcq-1'', random_calls := 5, clock_calls := 1\<rparr>"

definition example_world3 :: world where
  "example_world3 = example_world\<lparr>lastQuestionId := Some ''num-rule-of-72'', random_calls := 8, clock_calls := 2\<rparr>"

text \<open>
  A world like \<open>example_world2\<close> in which the clock advances by a millisecond with each reading.
\<close>

definition later_world :: world where
  "later_world = example_world2\<lparr>clock_values := (\<lambda>k. 1700000000000 + k)\<rparr>"

definition later_numeric :: NumericQuestion where
  "later_numeric = example_numeric\<lparr>num_id := ''num-rule-of-72-1700000000001''\<rparr>"

definition later_world1 :: world where
  "later_world1 =
     later_world\<lparr>lastQuestionId := Some ''num-rule-of-72'', random_calls := 8, clock_calls := 2\<rparr>"

text \<open>
  A world in which \<open>Math.random()\<close> alternates between 0.1 and 0.9, and the two worlds that the
  first two calls of \<open>getNextQuestion\<close> leave.
\<close>

definition alternating_world :: world where
  "alternating_world =
     \<lparr>lastQuestionId = None,
      random_values = (\<lambda>k. if even k then 0.1 else 0.9),
      random_calls = 0,
      clock_values = (\<lambda>k. 1700000000000 + k),
      clock_calls = 0\<rparr>"

definition alternating_world1 :: world where
  "alternating_world1 = alternating_world\<lparr>lastQuestionId := Some ''mcq-11'', random_calls := 2\<rparr>"

definition alternating_world2 :: world where
  "alternating_world2 = alternating_world\<lparr>lastQuestionId := Some ''mcq-2'', random_calls := 5\<rparr>"

text \<open>A world in which the first value of \<open>Math.random()\<close> is 0.95.\<close>

definition savings_world :: world where
  "savings_world =
     \<lparr>lastQuestionId = None,
      random_values = random_from [0.95, 0, 0],
      random_calls = 0,
      clock_values = (\<lambda>k. 1700000000000),
      clock_calls = 0\<rparr>"

text \<open>
  The index a re-roll loop over a catalog of \<open>len\<close> entries draws from the \<open>k\<close>-th value of
  \<open>Math.random()\<close>. In a world with \<open>rerolls_end\<close> the drawn index never stays the same
  forever: after every position of the sequence there is a later one with another index.
\<close>

definition drawn_index :: "world \<Rightarrow> nat \<Rightarrow> nat \<Rightarrow> int" where
  "drawn_index w len k = \<lfloor>random_values w k * real len\<rfloor>"

definition rerolls_end :: "world \<Rightarrow> bool" where
  "rerolls_end w =
     (\<forall>k. (\<exists>j>k. drawn_index w (length MCQ_POOL) j \<noteq> drawn_index w (length MCQ_POOL) k)
        \<and> (\<exists>j>k. drawn_index w (length NUMERIC_TEMPLATES) j
                    \<noteq> drawn_index w (length NUMERIC_TEMPLATES) k))"

text \<open>
  The catalog a resolved question comes from, and the identifier of the pool entry or template it
  was made from.
\<close>

definition catalog_size ::
  "MCQQuestion list \<Rightarrow> GeneratedQuestionTemplate list \<Rightarrow> ResolvedQuestion \<Rightarrow> nat" where
  "catalog_size pool tmpls q = (case q of MCQ m \<Rightarrow> length pool | Numeric n \<Rightarrow> length tmpls)"

definition served_from ::
  "MCQQuestion list \<Rightarrow> GeneratedQuestionTemplate list \<Rightarrow> ResolvedQuestion \<Rightarrow> string option \<Rightarrow> bool" where
  "served_from pool tmpls q source =
     (case q of
        MCQ m \<Rightarrow> m \<in> set pool \<and> source = Some (mcq_id m)
      | Numeric n \<Rightarrow>
          (\<exists>t\<in>set tmpls. source = Some (tmpl_id t) \<and> prefix (tmpl_id t @ ''-'') (num_id n)))"

text \<open>
  The tolerance rule: one percent of the answer, and 1 for the Rule of 72.
\<close>

definition tolerance_ok :: "NumericQuestion \<Rightarrow> bool" where
  "tolerance_ok n =
     (0 \<le> num_tolerance n
      \<and> (if prefix ''num-rule-of-72-'' (num_id n) then num_tolerance n = 1
         else num_tolerance n = num_correctAnswer n * 0.01))"

section \<open>Basic facts\<close>

lemma randInt_world: "snd (randInt lo hi w) = w\<lparr>random_calls := random_calls w + 1\<rparr>"
  by (simp add: randInt_def Math_random_def)

lemma randInt_value: "fst (randInt lo hi w) = \<lfloor>random_values w (random_calls w) * real_of_int (hi - lo + 1)\<rfloor> + lo"
  by (simp add: randInt_def Math_random_def)

lemma randInt_range:
  assumes "wf_random w" and "lo \<le> hi"
  shows "lo \<le> fst (randInt lo hi w) \<and> fst (randInt lo hi w) \<le> hi"
proof -
  define u where "u = random_values w (random_calls w)"
  define k where "k = hi - lo + 1"
  have u: "0 \<le> u" "u < 1" using assms(1) by (simp_all add: wf_random_def u_def)
  have k: "1 \<le> k" using assms(2) by (simp add: k_def)
  have "0 \<le> u * real_of_int k" using u k by simp
  then have lower: "0 \<le> \<lfloor>u * real_of_int k\<rfloor>" by simp
  have "u * real_of_int k < real_of_int k" using u k by simp
  then have upper: "\<lfloor>u * real_of_int k\<rfloor> < k" by (simp add: floor_less_iff)
  have "fst (randInt lo hi w) = \<lfloor>u * real_of_int k\<rfloor> + lo"
    by (simp add: randInt_value u_def k_def)
  with lower upper show ?thesis by (simp add: k_def)
qed

lemma only_draws_one: "only_draws w (w\<lparr>random_calls := random_calls w + 1\<rparr>)"
  by (simp add: only_draws_def)

lemma only_draws_step: "only_draws (w\<lparr>random_calls := random_calls w + 1\<rparr>) w' \<Longrightarrow> only_draws w w'"
  by (simp add: only_draws_def)

lemma only_draws_trans: "only_draws w w1 \<Longrightarrow> only_draws w1 w2 \<Longrightarrow> only_draws w w2"
  by (simp add: only_draws_def)

lemma pick_question_sound:
  assumes "pick_question pool w = Some r"
  shows "\<forall>q w'. r = Inr (q, w') \<longrightarrow>
           q \<in> set pool \<and> (1 < length pool \<longrightarrow> Some (mcq_id q) \<noteq> lastQuestionId w)
           \<and> only_draws w w'"
  using assms
proof (induction pool w r rule: pick_question.raw_induct[rotated 1, consumes 1, case_names step])
  case (step pick pool w r)
  obtain i w1 where d: "randInt 0 (int (length pool) - 1) w = (i, w1)"
    by (cases "randInt 0 (int (length pool) - 1) w")
  have w1: "w1 = w\<lparr>random_calls := random_calls w + 1\<rparr>"
    using randInt_world[of 0 "int (length pool) - 1" w] d by simp
  have last: "lastQuestionId w1 = lastQuestionId w" by (simp add: w1)
  show ?case
  proof (cases "array_get pool i")
    case None
    with step(2) d have "r = Inl TypeError" by simp
    then show ?thesis by simp
  next
    case (Some x)
    then have x: "x \<in> set pool" by (auto simp: array_get_def split: if_splits)
    show ?thesis
    proof (cases "Some (mcq_id x) = lastQuestionId w1 \<and> length pool > 1")
      case True
      with step(2) d Some have "pick pool w1 = Some r" by simp
      from step(1)[OF this]
      have IH: "\<And>y w'. r = Inr (y, w') \<Longrightarrow>
                  y \<in> set pool \<and> (1 < length pool \<longrightarrow> Some (mcq_id y) \<noteq> lastQuestionId w1)
                  \<and> only_draws w1 w'"
        by simp
      show ?thesis
      proof (intro allI impI)
        fix y w'
        assume "r = Inr (y, w')"
        from IH[OF this] have a: "y \<in> set pool"
          and b: "1 < length pool \<longrightarrow> Some (mcq_id y) \<noteq> lastQuestionId w1"
          and c: "only_draws w1 w'" by simp_all
        from c have "only_draws w w'" unfolding w1 by (rule only_draws_step)
        with a b show "y \<in> set pool \<and> (1 < length pool \<longrightarrow> Some (mcq_id y) \<noteq> lastQuestionId w)
           \<and> only_draws w w'" by (simp add: last)
      qed
    next
      case False
      with step(2) d Some have "r = Inr (x, w1)" by auto
      moreover have "only_draws w w1" unfolding w1 by (rule only_draws_one)
      ultimately show ?thesis using x False last by auto
    qed
  qed
qed

lemma pick_template_sound:
  assumes "pick_template tmpls w = Some r"
  shows "\<forall>t w'. r = Inr (t, w') \<longrightarrow>
           t \<in> set tmpls \<and> (1 < length tmpls \<longrightarrow> Some (tmpl_id t) \<noteq> lastQuestionId w)
           \<and> only_draws w w'"
  using assms
proof (induction tmpls w r rule: pick_template.raw_induct[rotated 1, consumes 1, case_names step])
  case (step pick tmpls w r)
  obtain i w1 where d: "randInt 0 (int (length tmpls) - 1) w = (i, w1)"
    by (cases "randInt 0 (int (length tmpls) - 1) w")
  have w1: "w1 = w\<lparr>random_calls := random_calls w + 1\<rparr>"
    using randInt_world[of 0 "int (length tmpls) - 1" w] d by simp
  have last: "lastQuestionId w1 = lastQuestionId w" by (simp add: w1)
  show ?case
  proof (cases "array_get tmpls i")
    case None
    with step(2) d have "r = Inl TypeError" by simp
    then show ?thesis by simp
  next
    case (Some x)
    then have x: "x \<in> set tmpls" by (auto simp: array_get_def split: if_splits)
    show ?thesis
    proof (cases "Some (tmpl_id x) = lastQuestionId w1 \<and> length tmpls > 1")
      case True
      with step(2) d Some have "pick tmpls w1 = Some r" by simp
      from step(1)[OF this]
      have IH: "\<And>y w'. r = Inr (y, w') \<Longrightarrow>
                  y \<in> set tmpls \<and> (1 < length tmpls \<longrightarrow> Some (tmpl_id y) \<noteq> lastQuestionId w1)
                  \<and> only_draws w1 w'"
        by simp
      show ?thesis
      proof (intro allI impI)
        fix y w'
        assume "r = Inr (y, w')"
        from IH[OF this] have a: "y \<in> set tmpls"
          and b: "1 < length tmpls \<longrightarrow> Some (tmpl_id y) \<noteq> lastQuestionId w1"
          and c: "only_draws w1 w'" by simp_all
        from c have "only_draws w w'" unfolding w1 by (rule only_draws_step)
        with a b show "y \<in> set tmpls \<and> (1 < length tmpls \<longrightarrow> Some (tmpl_id y) \<noteq> lastQuestionId w)
           \<and> only_draws w w'" by (simp add: last)
      qed
    next
      case False
      with step(2) d Some have "r = Inr (x, w1)" by auto
      moreover have "only_draws w w1" unfolding w1 by (rule only_draws_one)
      ultimately show ?thesis using x False last by auto
    qed
  qed
qed

lemma getNextQuestion_in_MCQ:
  assumes "getNextQuestion_in pool tmpls w = Some (Inr (MCQ m, w'))"
  shows "m \<in> set pool \<and> (1 < length pool \<longrightarrow> Some (mcq_id m) \<noteq> lastQuestionId w)
         \<and> lastQuestionId w' = Some (mcq_id m) \<and> random_values w' = random_values w
         \<and> clock_values w' = clock_values w \<and> clock_calls w' = clock_calls w"
proof -
  obtain u w1 where r: "Math_random w = (u, w1)" by (cases "Math_random w")
  then have w1: "w1 = w\<lparr>random_calls := random_calls w + 1\<rparr>" by (simp add: Math_random_def)
  from assms r have u: "u < 0.6"
    by (auto simp: getNextQuestion_in_def split: if_splits option.splits sum.splits prod.splits)
  with assms r obtain w2 where p: "pick_question pool w1 = Some (Inr (m, w2))"
    and w': "w' = w2\<lparr>lastQuestionId := Some (mcq_id m)\<rparr>"
    by (auto simp: getNextQuestion_in_def split: option.splits sum.splits prod.splits)
  from pick_question_sound[OF p]
  have a: "m \<in> set pool" and b: "1 < length pool \<longrightarrow> Some (mcq_id m) \<noteq> lastQuestionId w1"
    and c: "only_draws w1 w2" by simp_all
  from c have "only_draws w w2" unfolding w1 by (rule only_draws_step)
  then have "random_values w2 = random_values w" "clock_values w2 = clock_values w"
    "clock_calls w2 = clock_calls w" by (simp_all add: only_draws_def)
  with a b show ?thesis by (simp add: w' w1)
qed

lemma getNextQuestion_in_Numeric:
  assumes "getNextQuestion_in pool tmpls w = Some (Inr (Numeric n, w'))"
  shows "\<exists>t w2. t \<in> set tmpls \<and> (1 < length tmpls \<longrightarrow> Some (tmpl_id t) \<noteq> lastQuestionId w)
           \<and> only_draws w w2
           \<and> n = \<lparr>num_id = tmpl_id t @ ''-''
                             @ toString (int (clock_values (snd (generator t w2)) (clock_calls (snd (generator t w2))))),
                    num_questionText = questionText (fst (generator t w2)),
                    num_correctAnswer = correctAnswer (fst (generator t w2)),
                    num_tolerance = (case tolerance (fst (generator t w2)) of
                                       Some tol \<Rightarrow> tol
                                     | None \<Rightarrow> correctAnswer (fst (generator t w2)) * 0.01)\<rparr>
           \<and> w' = (snd (generator t w2))\<lparr>lastQuestionId := Some (tmpl_id t),
                        clock_calls := clock_calls (snd (generator t w2)) + 1\<rparr>"
proof -
  obtain u w1 where r: "Math_random w = (u, w1)" by (cases "Math_random w")
  then have w1: "w1 = w\<lparr>random_calls := random_calls w + 1\<rparr>" by (simp add: Math_random_def)
  from assms r have u: "\<not> u < 0.6"
    by (auto simp: getNextQuestion_in_def split: if_splits option.splits sum.splits prod.splits)
  with assms r obtain t w2 where p: "pick_template tmpls w1 = Some (Inr (t, w2))"
    and res: "(case generator t w2 of (generated, w3) \<Rightarrow>
                  (case Date_now (w3\<lparr>lastQuestionId := Some (tmpl_id t)\<rparr>) of (now, w4) \<Rightarrow>
                     Some (Inr (Numeric
                       \<lparr>num_id = tmpl_id t @ ''-'' @ toString (int now),
                        num_questionText = questionText generated,
                        num_correctAnswer = correctAnswer generated,
                        num_tolerance =
                          (case tolerance generated of
                             Some tol \<Rightarrow> tol
                           | None \<Rightarrow> correctAnswer generated * 0.01)\<rparr>, w4)))) = Some (Inr (Numeric n, w'))"
    by (auto simp: getNextQuestion_in_def split: option.splits sum.splits prod.splits)
  from pick_template_sound[OF p]
  have a: "t \<in> set tmpls" and b: "1 < length tmpls \<longrightarrow> Some (tmpl_id t) \<noteq> lastQuestionId w1"
    and c: "only_draws w1 w2" by simp_all
  from c have c': "only_draws w w2" unfolding w1 by (rule only_draws_step)
  from b have b': "1 < length tmpls \<longrightarrow> Some (tmpl_id t) \<noteq> lastQuestionId w" by (simp add: w1)
  from res have d: "n = \<lparr>num_id = tmpl_id t @ ''-''
                             @ toString (int (clock_values (snd (generator t w2)) (clock_calls (snd (generator t w2))))),
                    num_questionText = questionText (fst (generator t w2)),
                    num_correctAnswer = correctAnswer (fst (generator t w2)),
                    num_tolerance = (case tolerance (fst (generator t w2)) of
                                       Some tol \<Rightarrow> tol
                                     | None \<Rightarrow> correctAnswer (fst (generator t w2)) * 0.01)\<rparr>
           \<and> w' = (snd (generator t w2))\<lparr>lastQuestionId := Some (tmpl_id t),
                        clock_calls := clock_calls (snd (generator t w2)) + 1\<rparr>"
    by (cases "generator t w2") (auto simp: Date_now_def split: option.splits)
  from a b' c' d show ?thesis by blast
qed

lemma only_draws_randInt: "only_draws w (snd (randInt lo hi w))"
  by (simp add: randInt_world only_draws_def)

lemma wf_random_only_draws: "only_draws w w' \<Longrightarrow> wf_random w' = wf_random w"
  by (simp add: only_draws_def wf_random_def)

lemma round2_nonneg: "0 \<le> x \<Longrightarrow> 0 \<le> round2 x"
  by (simp add: round2_def Math_round_def)

lemma Math_pow_ge_1: "1 \<le> x \<Longrightarrow> 0 \<le> n \<Longrightarrow> 1 \<le> Math_pow x n"
  by (simp add: Math_pow_def)

lemma three_draws:
  assumes "wf_random w" "a1 \<le> b1" "a2 \<le> b2" "a3 \<le> b3"
  shows "\<exists>x y z w'.
          (case randInt a1 b1 w of (x, w1) \<Rightarrow>
           case randInt a2 b2 w1 of (y, w2) \<Rightarrow>
           case randInt a3 b3 w2 of (z, w3) \<Rightarrow> (f x y z, w3)) = (f x y z, w')
          \<and> a1 \<le> x \<and> x \<le> b1 \<and> a2 \<le> y \<and> y \<le> b2 \<and> a3 \<le> z \<and> z \<le> b3 \<and> only_draws w w'"
proof -
  let ?w1 = "snd (randInt a1 b1 w)"
  let ?w2 = "snd (randInt a2 b2 ?w1)"
  let ?w3 = "snd (randInt a3 b3 ?w2)"
  have d1: "only_draws w ?w1" by (rule only_draws_randInt)
  have d2: "only_draws ?w1 ?w2" by (rule only_draws_randInt)
  have d3: "only_draws ?w2 ?w3" by (rule only_draws_randInt)
  have wf1: "wf_random ?w1" using assms(1) wf_random_only_draws[OF d1] by simp
  have wf2: "wf_random ?w2" using wf1 wf_random_only_draws[OF d2] by simp
  have "only_draws w ?w3" using d1 d2 d3 by (blast intro: only_draws_trans)
  moreover note randInt_range[OF assms(1) assms(2)] randInt_range[OF wf1 assms(3)] randInt_range[OF wf2 assms(4)]
  ultimately show ?thesis
    by (intro exI[of _ "fst (randInt a1 b1 w)"] exI[of _ "fst (randInt a2 b2 ?w1)"]
          exI[of _ "fst (randInt a3 b3 ?w2)"] exI[of _ ?w3]) (simp add: split_beta)
qed

lemma compound_interest_question_ok:
  assumes "0 \<le> p" "0 \<le> rate" "0 \<le> years"
  shows "tolerance (compound_interest_question p rate years)
           = Some (correctAnswer (compound_interest_question p rate years) * 0.01)
         \<and> 0 \<le> correctAnswer (compound_interest_question p rate years)"
proof -
  have "1 \<le> Math_pow (1 + real_of_int rate / 100) years"
    using assms by (intro Math_pow_ge_1) simp_all
  then have "0 \<le> real_of_int p * Math_pow (1 + real_of_int rate / 100) years"
    using assms(1) by simp
  then show ?thesis by (simp add: compound_interest_question_def Let_def round2_nonneg)
qed

lemma simple_interest_question_ok:
  assumes "0 \<le> p" "0 \<le> rate" "0 \<le> years"
  shows "tolerance (simple_interest_question p rate years)
           = Some (correctAnswer (simple_interest_question p rate years) * 0.01)
         \<and> 0 \<le> correctAnswer (simple_interest_question p rate years)"
proof -
  have "0 \<le> real_of_int p * (real_of_int rate / 100) * real_of_int years"
    using assms by simp
  then have "0 \<le> round2 (real_of_int p * (real_of_int rate / 100) * real_of_int years)"
    by (rule round2_nonneg)
  then show ?thesis using assms(1) by (simp add: simple_interest_question_def Let_def)
qed

lemma future_value_question_ok:
  assumes "0 \<le> m" "0 < rate" "0 \<le> years"
  shows "tolerance (future_value_question m rate years)
           = Some (correctAnswer (future_value_question m rate years) * 0.01)
         \<and> 0 \<le> correctAnswer (future_value_question m rate years)"
proof -
  define r where "r = real_of_int rate / 100 / 12"
  define fv where "fv = round2 (real_of_int m * ((Math_pow (1 + r) (years * 12) - 1) / r))"
  have r: "0 < r" using assms(2) by (simp add: r_def)
  have "1 \<le> Math_pow (1 + r) (years * 12)"
    using assms(3) r by (intro Math_pow_ge_1) simp_all
  then have "0 \<le> (Math_pow (1 + r) (years * 12) - 1) / r" using r by simp
  moreover have "0 \<le> real_of_int m" using assms(1) by simp
  ultimately have "0 \<le> real_of_int m * ((Math_pow (1 + r) (years * 12) - 1) / r)"
    by (rule mult_nonneg_nonneg[rotated])
  then have fv: "0 \<le> fv" unfolding fv_def by (rule round2_nonneg)
  have "correctAnswer (future_value_question m rate years) = fv"
    and "tolerance (future_value_question m rate years) = Some (fv * 0.01)"
    by (simp_all only: future_value_question_def Let_def fv_def r_def
          GeneratedQuestionResult.select_convs)
  with fv show ?thesis by simp
qed

lemma rule_of_72_question_ok:
  assumes "0 < rate"
  shows "tolerance (rule_of_72_question rate) = Some 1
         \<and> 0 \<le> correctAnswer (rule_of_72_question rate)"
proof -
  have "0 \<le> round2 (72 / real_of_int rate)" using assms by (intro round2_nonneg) simp
  then have "0 \<le> Math_round (round2 (72 / real_of_int rate))" by (simp add: Math_round_def)
  then show ?thesis by (simp add: rule_of_72_question_def Let_def)
qed

lemma gen_compound_interest_ok:
  assumes "wf_random w"
  shows "only_draws w (snd (gen_compound_interest w))
    \<and> tolerance (fst (gen_compound_interest w)) = Some (correctAnswer (fst (gen_compound_interest w)) * 0.01)
    \<and> 0 \<le> correctAnswer (fst (gen_compound_interest w))"
proof -
  from three_draws[OF assms, of 1 50 2 12 1 10 "\<lambda>x. compound_interest_question (x * 1000)"]
  obtain x y z w' where "gen_compound_interest w = (compound_interest_question (x * 1000) y z, w')"
    and "1 \<le> x" "2 \<le> y" "1 \<le> z" "only_draws w w'"
    by (auto simp: gen_compound_interest_def)
  then show ?thesis using compound_interest_question_ok[of "x * 1000" y z] by simp
qed

lemma gen_simple_interest_ok:
  assumes "wf_random w"
  shows "only_draws w (snd (gen_simple_interest w))
    \<and> tolerance (fst (gen_simple_interest w)) = Some (correctAnswer (fst (gen_simple_interest w)) * 0.01)
    \<and> 0 \<le> correctAnswer (fst (gen_simple_interest w))"
proof -
  from three_draws[OF assms, of 1 20 3 10 1 5 "\<lambda>x. simple_interest_question (x * 1000)"]
  obtain x y z w' where "gen_simple_interest w = (simple_interest_question (x * 1000) y z, w')"
    and "1 \<le> x" "3 \<le> y" "1 \<le> z" "only_draws w w'"
    by (auto simp: gen_simple_interest_def)
  then show ?thesis using simple_interest_question_ok[of "x * 1000" y z] by simp
qed

lemma gen_future_value_annuity_ok:
  assumes "wf_random w"
  shows "only_draws w (snd (gen_future_value_annuity w))
    \<and> tolerance (fst (gen_future_value_annuity w)) = Some (correctAnswer (fst (gen_future_value_annuity w)) * 0.01)
    \<and> 0 \<le> correctAnswer (fst (gen_future_value_annuity w))"
proof -
  from three_draws[OF assms, of 1 10 4 10 2 10 "\<lambda>x. future_value_question (x * 100)"]
  obtain x y z w' where "gen_future_value_annuity w = (future_value_question (x * 100) y z, w')"
    and "1 \<le> x" "4 \<le> y" "2 \<le> z" "only_draws w w'"
    by (auto simp: gen_future_value_annuity_def)
  then show ?thesis using future_value_question_ok[of "x * 100" y z] by simp
qed

lemma gen_rule_of_72_ok:
  assumes "wf_random w"
  shows "only_draws w (snd (gen_rule_of_72 w))
    \<and> tolerance (fst (gen_rule_of_72 w)) = Some 1
    \<and> 0 \<le> correctAnswer (fst (gen_rule_of_72 w))"
proof -
  have "2 \<le> fst (randInt 2 12 w)" using randInt_range[OF assms, of 2 12] by simp
  then have "0 < fst (randInt 2 12 w)" by simp
  from rule_of_72_question_ok[OF this] only_draws_randInt[of w 2 12]
  show ?thesis by (simp add: gen_rule_of_72_def split_beta)
qed

lemma digit_value_digit_char: "d < 10 \<Longrightarrow> digit_value (digit_char d) = d"
proof -
  assume "d < 10"
  then have "d \<in> {0,1,2,3,4,5,6,7,8,9}" by auto
  then show ?thesis by (auto simp: digit_value_def digit_char_def)
qed

lemma read_nat_snoc: "read_nat (s @ [c]) = 10 * read_nat s + digit_value c"
  by (simp add: read_nat_def)

lemma read_nat_show_nat: "read_nat (show_nat n) = n"
proof (induction n rule: show_nat.induct)
  case (1 n)
  show ?case
  proof (cases "n < 10")
    case True
    then show ?thesis
      using read_nat_snoc[of "[]" "digit_char n"]
      by (simp add: show_nat.simps[of n] digit_value_digit_char read_nat_def)
  next
    case False
    with 1 have "read_nat (show_nat (n div 10)) = n div 10" by simp
    with False show ?thesis
      by (simp add: show_nat.simps[of n] read_nat_snoc digit_value_digit_char)
  qed
qed

lemma show_nat_inject: "show_nat a = show_nat b \<longleftrightarrow> a = b"
  by (metis read_nat_show_nat)

lemma toString_int_inject: "toString (int a) = toString (int b) \<longleftrightarrow> a = b"
  by (simp add: toString_def show_nat_inject)

lemma batch_loop_calls:
  "batch_loop pool tmpls count i acc w =
     (case sequential_calls pool tmpls (nat (count - i)) w of
        None \<Rightarrow> None
      | Some (Inl e) \<Rightarrow> Some (Inl e)
      | Some (Inr steps) \<Rightarrow> Some (Inr (acc @ map fst steps, last (w # map snd steps))))"
proof (induction pool tmpls count i acc w rule: batch_loop.induct)
  case (1 pool tmpls count i questions w)
  show ?case
  proof (cases "i < count")
    case False
    then show ?thesis by (simp add: batch_loop.simps[of pool tmpls count i])
  next
    case True
    then have n: "nat (count - i) = Suc (nat (count - (i + 1)))" by simp
    show ?thesis
    proof (cases "getNextQuestion_in pool tmpls w")
      case None
      with True show ?thesis by (simp add: batch_loop.simps[of pool tmpls count i] n)
    next
      case (Some r)
      show ?thesis
      proof (cases r)
        case (Inl e)
        with Some True show ?thesis by (simp add: batch_loop.simps[of pool tmpls count i] n)
      next
        case (Inr p)
        obtain q w' where p: "p = (q, w')" by (cases p)
        from 1[OF True Some Inr p[symmetric]] 
        have IH: "batch_loop pool tmpls count (i + 1) (questions @ [q]) w' =
          (case sequential_calls pool tmpls (nat (count - (i + 1))) w' of
             None \<Rightarrow> None
           | Some (Inl e) \<Rightarrow> Some (Inl e)
           | Some (Inr steps) \<Rightarrow> Some (Inr ((questions @ [q]) @ map fst steps, last (w' # map snd steps))))" .
        show ?thesis
          using True Some Inr p
          by (simp add: batch_loop.simps[of pool tmpls count i] n IH split: option.splits sum.splits)
      qed
    qed
  qed
qed

lemma getQuestionBatch_in_calls:
  "getQuestionBatch_in pool tmpls count w = batch_of_calls w (sequential_calls pool tmpls (nat count) w)"
  by (simp add: getQuestionBatch_in_def batch_loop_calls batch_of_calls_def
        split: option.splits sum.splits)

lemma sequential_calls_length:
  "sequential_calls pool tmpls n w = Some (Inr steps) \<Longrightarrow> length steps = n"
  by (induction n arbitrary: w steps) (auto split: option.splits sum.splits)

lemma rule_of_72_question_7: "correctAnswer (rule_of_72_question 7) = 10" "tolerance (rule_of_72_question 7) = Some 1"
  by (simp_all add: rule_of_72_question_def Let_def round2_def Math_round_def)

lemma toString_example_time: "toString 1700000000000 = ''1700000000000''"
  by (simp add: toString_def show_nat.simps digit_char_def)

lemmas example_eval =
  getNextQuestion_def getNextQuestion_in_def example_world_def Math_random_def random_from_def
  pick_template.simps pick_question.simps randInt_def array_get_def NUMERIC_TEMPLATES_def
  gen_rule_of_72_def Date_now_def rule_of_72_question_7 toString_example_time example_numeric_def
  example_world1_def example_world2_def example_world3_def

lemma example_call1:
  "getNextQuestion_in MCQ_POOL NUMERIC_TEMPLATES example_world = Some (Inr (Numeric example_numeric, example_world1))"
  by (simp add: example_eval)

lemma example_call2:
  "getNextQuestion_in MCQ_POOL NUMERIC_TEMPLATES example_world1 = Some (Inr (MCQ (MCQ_POOL ! 0), example_world2))"
  by (simp add: example_eval MCQ_POOL_def)

lemma example_call3:
  "getNextQuestion_in MCQ_POOL NUMERIC_TEMPLATES example_world2 = Some (Inr (Numeric example_numeric, example_world3))"
  by (simp add: example_eval)

lemma example_calls:
  "sequential_calls MCQ_POOL NUMERIC_TEMPLATES 3 example_world =
     Some (Inr [(Numeric example_numeric, example_world1), (MCQ (MCQ_POOL ! 0), example_world2),
                (Numeric example_numeric, example_world3)])"
  by (simp add: numeral_3_eq_3 example_call1 example_call2 example_call3)

lemma example_batch:
  "getQuestionBatch (Some 3) example_world =
     Some (Inr ([Numeric example_numeric, MCQ (MCQ_POOL ! 0), Numeric example_numeric], example_world3))"
  by (simp add: getQuestionBatch_def getQuestionBatch_in_calls example_calls batch_of_calls_def)

lemma randInt_index: "randInt 0 (int len - 1) w = (drawn_index w len (random_calls w), w\<lparr>random_calls := random_calls w + 1\<rparr>)"
  by (simp add: randInt_def Math_random_def drawn_index_def)

lemma drawn_index_range:
  assumes "wf_random w" "0 < len"
  shows "0 \<le> drawn_index w len k \<and> drawn_index w len k < int len"
proof -
  have u: "0 \<le> random_values w k" "random_values w k < 1"
    using assms(1) by (simp_all add: wf_random_def)
  have "0 \<le> random_values w k * real len" using u by simp
  moreover have "random_values w k * real len < real len" using u assms(2) by simp
  ultimately show ?thesis by (simp add: drawn_index_def floor_less_iff)
qed

lemma array_get_drawn:
  assumes "wf_random w" "xs \<noteq> []"
  shows "array_get xs (drawn_index w (length xs) k) = Some (xs ! nat (drawn_index w (length xs) k))"
  using drawn_index_range[OF assms(1), of "length xs" k] assms(2) by (simp add: array_get_def)

lemma pick_question_accepts_eventually:
  assumes "wf_random w" "pool \<noteq> []" "random_calls w \<le> j"
    and "Some (mcq_id (pool ! nat (drawn_index w (length pool) j))) \<noteq> lastQuestionId w"
  shows "\<exists>q w'. pick_question pool w = Some (Inr (q, w'))"
  using assms
proof (induction "j - random_calls w" arbitrary: w)
  case 0
  then have j: "j = random_calls w" by simp
  from 0 show ?case
    by (subst pick_question.simps) (simp add: randInt_index array_get_drawn j)
next
  case (Suc d)
  let ?w1 = "w\<lparr>random_calls := random_calls w + 1\<rparr>"
  let ?q = "pool ! nat (drawn_index w (length pool) (random_calls w))"
  show ?case
  proof (cases "Some (mcq_id ?q) = lastQuestionId w \<and> length pool > 1")
    case False
    with Suc.prems show ?thesis
      by (subst pick_question.simps) (auto simp add: randInt_index array_get_drawn)
  next
    case True
    have "\<exists>q w'. pick_question pool ?w1 = Some (Inr (q, w'))"
    proof (rule Suc.hyps(1))
      show "d = j - random_calls ?w1" using Suc.hyps(2) by simp
      show "wf_random ?w1" using Suc.prems(1) by (simp add: wf_random_def)
      show "pool \<noteq> []" by fact
      show "random_calls ?w1 \<le> j" using Suc.hyps(2) by simp
      show "Some (mcq_id (pool ! nat (drawn_index ?w1 (length pool) j))) \<noteq> lastQuestionId ?w1"
        using Suc.prems(4) by (simp add: drawn_index_def)
    qed
    with True Suc.prems show ?thesis
      by (subst pick_question.simps) (simp add: randInt_index array_get_drawn)
  qed
qed

lemma distinct_map_nth:
  assumes "i \<noteq> j" "i < length xs" "j < length xs" "distinct (map f xs)"
  shows "f (xs ! i) \<noteq> f (xs ! j)"
  using nth_eq_iff_index_eq[of "map f xs" i j] assms by simp

lemma pick_question_total:
  assumes "wf_random w" "pool \<noteq> []" "distinct (map mcq_id pool)"
    and "\<exists>j>random_calls w. drawn_index w (length pool) j \<noteq> drawn_index w (length pool) (random_calls w)"
  shows "\<exists>q w'. pick_question pool w = Some (Inr (q, w'))"
proof -
  let ?k = "random_calls w"
  from assms(4) obtain j where j: "?k < j"
    and ne: "drawn_index w (length pool) j \<noteq> drawn_index w (length pool) ?k" by blast
  have len: "0 < length pool" using assms(2) by simp
  note rj = drawn_index_range[OF assms(1) len, of j]
  note rk = drawn_index_range[OF assms(1) len, of ?k]
  have "nat (drawn_index w (length pool) j) \<noteq> nat (drawn_index w (length pool) ?k)"
    using ne rj rk by (simp add: eq_nat_nat_iff)
  moreover have nj: "nat (drawn_index w (length pool) j) < length pool"
    and nk: "nat (drawn_index w (length pool) ?k) < length pool"
    using rj rk by (simp_all add: nat_less_iff)
  ultimately have "mcq_id (pool ! nat (drawn_index w (length pool) j))
      \<noteq> mcq_id (pool ! nat (drawn_index w (length pool) ?k))"
    using assms(3) by (intro distinct_map_nth)
  then have "Some (mcq_id (pool ! nat (drawn_index w (length pool) j))) \<noteq> lastQuestionId w
     \<or> Some (mcq_id (pool ! nat (drawn_index w (length pool) ?k))) \<noteq> lastQuestionId w"
    by (metis option.inject)
  then show ?thesis
  proof
    assume "Some (mcq_id (pool ! nat (drawn_index w (length pool) j))) \<noteq> lastQuestionId w"
    from pick_question_accepts_eventually[OF assms(1,2) _ this] j show ?thesis by simp
  next
    assume "Some (mcq_id (pool ! nat (drawn_index w (length pool) ?k))) \<noteq> lastQuestionId w"
    from pick_question_accepts_eventually[OF assms(1,2) _ this] show ?thesis by simp
  qed
qed

lemma pick_template_accepts_eventually:
  assumes "wf_random w" "tmpls \<noteq> []" "random_calls w \<le> j"
    and "Some (tmpl_id (tmpls ! nat (drawn_index w (length tmpls) j))) \<noteq> lastQuestionId w"
  shows "\<exists>q w'. pick_template tmpls w = Some (Inr (q, w'))"
  using assms
proof (induction "j - random_calls w" arbitrary: w)
  case 0
  then have j: "j = random_calls w" by simp
  from 0 show ?case
    by (subst pick_template.simps) (simp add: randInt_index array_get_drawn j)
next
  case (Suc d)
  let ?w1 = "w\<lparr>random_calls := random_calls w + 1\<rparr>"
  let ?t = "tmpls ! nat (drawn_index w (length tmpls) (random_calls w))"
  show ?case
  proof (cases "Some (tmpl_id ?t) = lastQuestionId w \<and> length tmpls > 1")
    case False
    with Suc.prems show ?thesis
      by (subst pick_template.simps) (auto simp add: randInt_index array_get_drawn)
  next
    case True
    have "\<exists>q w'. pick_template tmpls ?w1 = Some (Inr (q, w'))"
    proof (rule Suc.hyps(1))
      show "d = j - random_calls ?w1" using Suc.hyps(2) by simp
      show "wf_random ?w1" using Suc.prems(1) by (simp add: wf_random_def)
      show "tmpls \<noteq> []" by fact
      show "random_calls ?w1 \<le> j" using Suc.hyps(2) by simp
      show "Some (tmpl_id (tmpls ! nat (drawn_index ?w1 (length tmpls) j))) \<noteq> lastQuestionId ?w1"
        using Suc.prems(4) by (simp add: drawn_index_def)
    qed
    with True Suc.prems show ?thesis
      by (subst pick_template.simps) (simp add: randInt_index array_get_drawn)
  qed
qed

lemma pick_template_total:
  assumes "wf_random w" "tmpls \<noteq> []" "distinct (map tmpl_id tmpls)"
    and "\<exists>j>random_calls w. drawn_index w (length tmpls) j \<noteq> drawn_index w (length tmpls) (random_calls w)"
  shows "\<exists>q w'. pick_template tmpls w = Some (Inr (q, w'))"
proof -
  let ?k = "random_calls w"
  from assms(4) obtain j where j: "?k < j"
    and ne: "drawn_index w (length tmpls) j \<noteq> drawn_index w (length tmpls) ?k" by blast
  have len: "0 < length tmpls" using assms(2) by simp
  note rj = drawn_index_range[OF assms(1) len, of j]
  note rk = drawn_index_range[OF assms(1) len, of ?k]
  have "nat (drawn_index w (length tmpls) j) \<noteq> nat (drawn_index w (length tmpls) ?k)"
    using ne rj rk by (simp add: eq_nat_nat_iff)
  moreover have nj: "nat (drawn_index w (length tmpls) j) < length tmpls"
    and nk: "nat (drawn_index w (length tmpls) ?k) < length tmpls"
    using rj rk by (simp_all add: nat_less_iff)
  ultimately have "tmpl_id (tmpls ! nat (drawn_index w (length tmpls) j))
      \<noteq> tmpl_id (tmpls ! nat (drawn_index w (length tmpls) ?k))"
    using assms(3) by (intro distinct_map_nth)
  then have "Some (tmpl_id (tmpls ! nat (drawn_index w (length tmpls) j))) \<noteq> lastQuestionId w
     \<or> Some (tmpl_id (tmpls ! nat (drawn_index w (length tmpls) ?k))) \<noteq> lastQuestionId w"
    by (metis option.inject)
  then show ?thesis
  proof
    assume "Some (tmpl_id (tmpls ! nat (drawn_index w (length tmpls) j))) \<noteq> lastQuestionId w"
    from pick_template_accepts_eventually[OF assms(1,2) _ this] j show ?thesis by simp
  next
    assume "Some (tmpl_id (tmpls ! nat (drawn_index w (length tmpls) ?k))) \<noteq> lastQuestionId w"
    from pick_template_accepts_eventually[OF assms(1,2) _ this] show ?thesis by simp
  qed
qed

lemma gen_compound_interest_only_draws: "only_draws w (snd (gen_compound_interest w))"
  unfolding gen_compound_interest_def split_beta snd_conv
  by (blast intro: only_draws_trans only_draws_randInt)

lemma gen_simple_interest_only_draws: "only_draws w (snd (gen_simple_interest w))"
  unfolding gen_simple_interest_def split_beta snd_conv
  by (blast intro: only_draws_trans only_draws_randInt)

lemma gen_rule_of_72_only_draws: "only_draws w (snd (gen_rule_of_72 w))"
  unfolding gen_rule_of_72_def split_beta snd_conv
  by (rule only_draws_randInt)

lemma gen_future_value_annuity_only_draws: "only_draws w (snd (gen_future_value_annuity w))"
  unfolding gen_future_value_annuity_def split_beta snd_conv
  by (blast intro: only_draws_trans only_draws_randInt)

lemma shipped_generator_only_draws:
  "t \<in> set NUMERIC_TEMPLATES \<Longrightarrow> only_draws w (snd (generator t w))"
  by (auto simp: NUMERIC_TEMPLATES_def gen_compound_interest_only_draws
      gen_simple_interest_only_draws gen_rule_of_72_only_draws gen_future_value_annuity_only_draws)

lemma getNextQuestion_frame:
  assumes "getNextQuestion w = Some (Inr (q, w'))"
  shows "random_values w' = random_values w \<and> clock_values w' = clock_values w"
proof (cases q)
  case (MCQ m)
  with assms getNextQuestion_in_MCQ[of MCQ_POOL NUMERIC_TEMPLATES w m w'] show ?thesis
    by (simp add: getNextQuestion_def)
next
  case (Numeric n)
  with assms getNextQuestion_in_Numeric[of MCQ_POOL NUMERIC_TEMPLATES w n w']
  obtain t w2 where t: "t \<in> set NUMERIC_TEMPLATES" and w2: "only_draws w w2"
    and w': "w' = (snd (generator t w2))\<lparr>lastQuestionId := Some (tmpl_id t),
                        clock_calls := clock_calls (snd (generator t w2)) + 1\<rparr>"
    by (auto simp: getNextQuestion_def)
  from only_draws_trans[OF w2 shipped_generator_only_draws[OF t]]
  have "only_draws w (snd (generator t w2))" .
  then show ?thesis by (simp add: w' only_draws_def)
qed

lemma wf_random_cong: "random_values w' = random_values w \<Longrightarrow> wf_random w' = wf_random w"
  by (simp add: wf_random_def)

lemma rerolls_end_cong: "random_values w' = random_values w \<Longrightarrow> rerolls_end w' = rerolls_end w"
  by (simp add: rerolls_end_def drawn_index_def)

lemma distinct_MCQ_POOL: "distinct (map mcq_id MCQ_POOL)"
  by (simp add: MCQ_POOL_def)

lemma distinct_NUMERIC_TEMPLATES: "distinct (map tmpl_id NUMERIC_TEMPLATES)"
  by (simp add: NUMERIC_TEMPLATES_def)

lemma getNextQuestion_returns:
  assumes "wf_random w" "rerolls_end w"
  shows "\<exists>q w'. getNextQuestion w = Some (Inr (q, w'))"
proof -
  let ?w1 = "w\<lparr>random_calls := random_calls w + 1\<rparr>"
  have wf1: "wf_random ?w1" using assms(1) by (simp add: wf_random_def)
  have fair: "rerolls_end ?w1" using assms(2) rerolls_end_cong[of ?w1 w] by simp
  have r: "Math_random w = (random_values w (random_calls w), ?w1)" by (simp add: Math_random_def)
  show ?thesis
  proof (cases "random_values w (random_calls w) < 0.6")
    case True
    have "\<exists>q w'. pick_question MCQ_POOL ?w1 = Some (Inr (q, w'))"
      using fair by (intro pick_question_total[OF wf1 _ distinct_MCQ_POOL])
        (simp_all add: rerolls_end_def MCQ_POOL_def)
    with True r show ?thesis by (auto simp: getNextQuestion_def getNextQuestion_in_def)
  next
    case False
    have "\<exists>t w'. pick_template NUMERIC_TEMPLATES ?w1 = Some (Inr (t, w'))"
      using fair by (intro pick_template_total[OF wf1 _ distinct_NUMERIC_TEMPLATES])
        (simp_all add: rerolls_end_def NUMERIC_TEMPLATES_def)
    with False r show ?thesis
      by (auto simp: getNextQuestion_def getNextQuestion_in_def split_beta)
  qed
qed

lemma sequential_calls_return:
  assumes "wf_random w" "rerolls_end w"
  shows "\<exists>steps. sequential_calls MCQ_POOL NUMERIC_TEMPLATES n w = Some (Inr steps)"
  using assms
proof (induction n arbitrary: w)
  case 0
  show ?case by simp
next
  case (Suc n)
  from getNextQuestion_returns[OF Suc.prems] obtain q w'
    where c: "getNextQuestion w = Some (Inr (q, w'))" by blast
  from getNextQuestion_frame[OF c] have rv: "random_values w' = random_values w" by simp
  have "wf_random w'" "rerolls_end w'"
    using Suc.prems wf_random_cong[OF rv] rerolls_end_cong[OF rv] by simp_all
  from Suc.IH[OF this] obtain steps
    where "sequential_calls MCQ_POOL NUMERIC_TEMPLATES n w' = Some (Inr steps)" by blast
  with c show ?case by (simp add: getNextQuestion_def)
qed

lemma getNextQuestion_in_source:
  assumes "getNextQuestion_in pool tmpls w = Some (Inr (q, w'))"
  shows "served_from pool tmpls q (lastQuestionId w')
         \<and> (1 < catalog_size pool tmpls q \<longrightarrow> lastQuestionId w' \<noteq> lastQuestionId w)"
proof (cases q)
  case (MCQ m)
  with assms getNextQuestion_in_MCQ[of pool tmpls w m w'] show ?thesis
    by (auto simp: served_from_def catalog_size_def)
next
  case (Numeric n)
  with assms getNextQuestion_in_Numeric[of pool tmpls w n w']
  obtain t w2 where t: "t \<in> set tmpls"
    and ne: "1 < length tmpls \<longrightarrow> Some (tmpl_id t) \<noteq> lastQuestionId w"
    and n: "num_id n = tmpl_id t @ ''-''
              @ toString (int (clock_values (snd (generator t w2)) (clock_calls (snd (generator t w2)))))"
    and w': "lastQuestionId w' = Some (tmpl_id t)"
    by auto
  have "prefix (tmpl_id t @ ''-'') (num_id n)" unfolding n by (simp add: prefix_def)
  with t w' have "served_from pool tmpls q (lastQuestionId w')"
    unfolding served_from_def Numeric by auto
  with ne w' Numeric show ?thesis by (simp add: catalog_size_def)
qed

lemma sequential_calls_sources:
  assumes "sequential_calls pool tmpls k w = Some (Inr steps)"
  shows "\<forall>i<length steps.
           served_from pool tmpls (fst (steps ! i)) (lastQuestionId (snd (steps ! i)))
           \<and> (1 < catalog_size pool tmpls (fst (steps ! i))
                \<longrightarrow> lastQuestionId (snd (steps ! i)) \<noteq> lastQuestionId ((w # map snd steps) ! i))"
  using assms
proof (induction k arbitrary: w steps)
  case 0
  then show ?case by simp
next
  case (Suc k)
  from Suc.prems obtain q w' rest where c: "getNextQuestion_in pool tmpls w = Some (Inr (q, w'))"
    and r: "sequential_calls pool tmpls k w' = Some (Inr rest)"
    and s: "steps = (q, w') # rest"
    by (auto split: option.splits sum.splits)
  note first = getNextQuestion_in_source[OF c]
  note others = Suc.IH[OF r]
  show ?case
  proof (intro allI impI)
    fix i assume i: "i < length steps"
    show "served_from pool tmpls (fst (steps ! i)) (lastQuestionId (snd (steps ! i)))
           \<and> (1 < catalog_size pool tmpls (fst (steps ! i))
                \<longrightarrow> lastQuestionId (snd (steps ! i)) \<noteq> lastQuestionId ((w # map snd steps) ! i))"
    proof (cases i)
      case 0
      with first show ?thesis by (simp add: s)
    next
      case (Suc i')
      with i have "i' < length rest" by (simp add: s)
      with others have "served_from pool tmpls (fst (rest ! i')) (lastQuestionId (snd (rest ! i')))
           \<and> (1 < catalog_size pool tmpls (fst (rest ! i'))
                \<longrightarrow> lastQuestionId (snd (rest ! i')) \<noteq> lastQuestionId ((w' # map snd rest) ! i'))"
        by blast
      then show ?thesis by (simp add: s Suc)
    qed
  qed
qed

lemma getNextQuestion_tolerance:
  assumes "wf_random w" "getNextQuestion w = Some (Inr (Numeric n, w'))"
  shows "tolerance_ok n"
proof -
  from assms(2) getNextQuestion_in_Numeric[of MCQ_POOL NUMERIC_TEMPLATES w n w']
  obtain t w2 where t: "t \<in> set NUMERIC_TEMPLATES" and w2: "only_draws w w2"
    and id: "num_id n = tmpl_id t @ ''-''
              @ toString (int (clock_values (snd (generator t w2)) (clock_calls (snd (generator t w2)))))"
    and ca: "num_correctAnswer n = correctAnswer (fst (generator t w2))"
    and tol: "num_tolerance n = (case tolerance (fst (generator t w2)) of
                                       Some tol \<Rightarrow> tol
                                     | None \<Rightarrow> correctAnswer (fst (generator t w2)) * 0.01)"
    by (auto simp: getNextQuestion_def)
  have wf: "wf_random w2" using assms(1) wf_random_only_draws[OF w2] by simp
  from t have "tmpl_id t = ''num-compound-interest'' \<and> generator t = gen_compound_interest
     \<or> tmpl_id t = ''num-simple-interest'' \<and> generator t = gen_simple_interest
     \<or> tmpl_id t = ''num-rule-of-72'' \<and> generator t = gen_rule_of_72
     \<or> tmpl_id t = ''num-future-value-annuity'' \<and> generator t = gen_future_value_annuity"
    by (auto simp: NUMERIC_TEMPLATES_def)
  then show ?thesis
  proof (elim disjE conjE)
    assume "tmpl_id t = ''num-compound-interest''" "generator t = gen_compound_interest"
    with gen_compound_interest_ok[OF wf] id ca tol show ?thesis
      by (simp add: tolerance_ok_def)
  next
    assume "tmpl_id t = ''num-simple-interest''" "generator t = gen_simple_interest"
    with gen_simple_interest_ok[OF wf] id ca tol show ?thesis
      by (simp add: tolerance_ok_def)
  next
    assume "tmpl_id t = ''num-rule-of-72''" "generator t = gen_rule_of_72"
    with gen_rule_of_72_ok[OF wf] id ca tol show ?thesis
      by (simp add: tolerance_ok_def)
  next
    assume "tmpl_id t = ''num-future-value-annuity''" "generator t = gen_future_value_annuity"
    with gen_future_value_annuity_ok[OF wf] id ca tol show ?thesis
      by (simp add: tolerance_ok_def)
  qed
qed

lemma sequential_calls_tolerance:
  assumes "wf_random w" "sequential_calls MCQ_POOL NUMERIC_TEMPLATES k w = Some (Inr steps)"
    and "Numeric n \<in> set (map fst steps)"
  shows "tolerance_ok n"
  using assms
proof (induction k arbitrary: w steps)
  case 0
  then show ?case by simp
next
  case (Suc k)
  from Suc.prems(2) obtain q w' rest where c: "getNextQuestion w = Some (Inr (q, w'))"
    and r: "sequential_calls MCQ_POOL NUMERIC_TEMPLATES k w' = Some (Inr rest)"
    and s: "steps = (q, w') # rest"
    by (auto simp: getNextQuestion_def split: option.splits sum.splits)
  from getNextQuestion_frame[OF c] have "random_values w' = random_values w" by simp
  with Suc.prems(1) have wf': "wf_random w'" by (simp add: wf_random_def)
  from Suc.prems(3) s have "q = Numeric n \<or> Numeric n \<in> set (map fst rest)" by auto
  then show ?case
  proof
    assume "q = Numeric n"
    with c getNextQuestion_tolerance[OF Suc.prems(1)] show ?thesis by simp
  next
    assume "Numeric n \<in> set (map fst rest)"
    from Suc.IH[OF wf' r this] show ?thesis .
  qed
qed

lemma random_from_range:
  assumes "\<forall>x\<in>set xs. 0 \<le> x \<and> x < 1"
  shows "0 \<le> random_from xs k \<and> random_from xs k < 1"
  using assms by (simp add: random_from_def)

lemma wf_random_example_world: "wf_random example_world"
  unfolding wf_random_def example_world_def world.select_convs
  by (intro allI random_from_range) simp

lemma wf_random_example_world2: "wf_random example_world2"
  using wf_random_example_world by (simp add: wf_random_def example_world2_def)

lemma wf_random_alternating_world: "wf_random alternating_world"
  by (simp add: wf_random_def alternating_world_def)

lemma length_MCQ_POOL: "length MCQ_POOL = 12"
  by (simp add: MCQ_POOL_def)

lemma length_NUMERIC_TEMPLATES: "length NUMERIC_TEMPLATES = 4"
  by (simp add: NUMERIC_TEMPLATES_def)

lemma rerolls_end_alternating_world: "rerolls_end alternating_world"
  unfolding rerolls_end_def length_MCQ_POOL length_NUMERIC_TEMPLATES
proof (intro allI conjI)
  fix k
  show "\<exists>j>k. drawn_index alternating_world 12 j \<noteq> drawn_index alternating_world 12 k"
    by (rule exI[of _ "Suc k"]) (simp add: drawn_index_def alternating_world_def)
  show "\<exists>j>k. drawn_index alternating_world 4 j \<noteq> drawn_index alternating_world 4 k"
    by (rule exI[of _ "Suc k"]) (simp add: drawn_index_def alternating_world_def)
qed

lemmas alternating_eval =
  getNextQuestion_in_def alternating_world_def alternating_world1_def alternating_world2_def
  Math_random_def pick_question.simps randInt_def array_get_def MCQ_POOL_def

lemma alternating_call1:
  "getNextQuestion_in MCQ_POOL NUMERIC_TEMPLATES alternating_world
     = Some (Inr (MCQ (MCQ_POOL ! 10), alternating_world1))"
  by (simp add: alternating_eval)

lemma alternating_call2:
  "getNextQuestion_in MCQ_POOL NUMERIC_TEMPLATES alternating_world1
     = Some (Inr (MCQ (MCQ_POOL ! 1), alternating_world2))"
  by (simp add: alternating_eval)

lemma alternating_calls:
  "sequential_calls MCQ_POOL NUMERIC_TEMPLATES 2 alternating_world =
     Some (Inr [(MCQ (MCQ_POOL ! 10), alternating_world1), (MCQ (MCQ_POOL ! 1), alternating_world2)])"
  by (simp add: numeral_2_eq_2 alternating_call1 alternating_call2)

lemma alternating_batch:
  "getQuestionBatch_in MCQ_POOL NUMERIC_TEMPLATES 2 alternating_world =
     Some (Inr ([MCQ (MCQ_POOL ! 10), MCQ (MCQ_POOL ! 1)], alternating_world2))"
  by (simp add: getQuestionBatch_in_calls alternating_calls batch_of_calls_def)

lemma question_tolerance:
  "tolerance (compound_interest_question p rate years)
     = Some (correctAnswer (compound_interest_question p rate years) * 0.01)"
  "tolerance (simple_interest_question p rate years)
     = Some (correctAnswer (simple_interest_question p rate years) * 0.01)"
  "tolerance (rule_of_72_question rate) = Some 1"
  "tolerance (future_value_question p rate years)
     = Some (correctAnswer (future_value_question p rate years) * 0.01)"
  by (simp_all add: compound_interest_question_def simple_interest_question_def
      rule_of_72_question_def future_value_question_def Let_def)

section \<open>Properties stated by the specification\<close>

subsection \<open>Identifiers of numeric questions\<close>

text \<open>
  C1 as the specification states it, that the timestamp in the identifier keeps two numeric
  questions of one batch that come from the same template apart, does not hold. \<open>Date.now()\<close>
  counts milliseconds, and in \<open>example_world\<close> it returns the same value throughout the batch:
  the first and the third question of the batch of three both come from the Rule of 72
  template and carry the same identifier.
\<close>

theorem numeric_ids_collide:
  "getQuestionBatch (Some 3) example_world
     = Some (Inr ([Numeric example_numeric, MCQ (MCQ_POOL ! 0), Numeric example_numeric],
                  example_world3))
   \<and> num_id example_numeric = ''num-rule-of-72-1700000000000''"
  using example_batch by (simp add: example_numeric_def)

text \<open>
  C1, amended: the identifier of a numeric question is the identifier of its template, a
  hyphen, and the decimal numeral of the value \<open>Date.now()\<close> returns during the call. Two numeric
  questions made from the same template have the same identifier exactly when \<open>Date.now()\<close>
  returned the same value in both calls; so they differ whenever the clock has advanced.
\<close>

theorem numeric_id_synthesis:
  assumes "getNextQuestion w1 = Some (Inr (Numeric n1, w1'))"
    and "getNextQuestion w2 = Some (Inr (Numeric n2, w2'))"
  shows "(\<exists>t\<in>set NUMERIC_TEMPLATES. lastQuestionId w1' = Some (tmpl_id t)
            \<and> num_id n1 = tmpl_id t @ ''-'' @ toString (int (clock_values w1 (clock_calls w1))))
         \<and> (lastQuestionId w1' = lastQuestionId w2' \<longrightarrow>
              (num_id n1 = num_id n2 \<longleftrightarrow>
                 clock_values w1 (clock_calls w1) = clock_values w2 (clock_calls w2)))"
proof -
  have id: "\<exists>t\<in>set NUMERIC_TEMPLATES. lastQuestionId w' = Some (tmpl_id t)
            \<and> num_id n = tmpl_id t @ ''-'' @ toString (int (clock_values w (clock_calls w)))"
    if "getNextQuestion w = Some (Inr (Numeric n, w'))" for w n w'
  proof -
    from that getNextQuestion_in_Numeric[of MCQ_POOL NUMERIC_TEMPLATES w n w']
    obtain t v where t: "t \<in> set NUMERIC_TEMPLATES" and v: "only_draws w v"
      and n: "num_id n = tmpl_id t @ ''-''
              @ toString (int (clock_values (snd (generator t v)) (clock_calls (snd (generator t v)))))"
      and w': "lastQuestionId w' = Some (tmpl_id t)"
      by (auto simp: getNextQuestion_def)
    from only_draws_trans[OF v shipped_generator_only_draws[OF t]]
    have "clock_values (snd (generator t v)) = clock_values w"
      "clock_calls (snd (generator t v)) = clock_calls w" by (simp_all add: only_draws_def)
    with n have "num_id n = tmpl_id t @ ''-'' @ toString (int (clock_values w (clock_calls w)))"
      by simp
    with t w' show ?thesis by blast
  qed
  from id[OF assms(1)] obtain t1 :: GeneratedQuestionTemplate where t1: "lastQuestionId w1' = Some (tmpl_id t1)"
    "num_id n1 = tmpl_id t1 @ ''-'' @ toString (int (clock_values w1 (clock_calls w1)))" by blast
  from id[OF assms(2)] obtain t2 :: GeneratedQuestionTemplate where t2: "lastQuestionId w2' = Some (tmpl_id t2)"
    "num_id n2 = tmpl_id t2 @ ''-'' @ toString (int (clock_values w2 (clock_calls w2)))" by blast
  have "lastQuestionId w1' = lastQuestionId w2' \<longrightarrow>
              (num_id n1 = num_id n2 \<longleftrightarrow>
                 clock_values w1 (clock_calls w1) = clock_values w2 (clock_calls w2))"
    using t1 t2 by (auto simp: toString_int_inject)
  with id[OF assms(1)] show ?thesis by blast
qed

text \<open>
  The first call in \<open>example_world\<close> and the call in \<open>later_world\<close> both use the Rule of 72
  template, one millisecond apart.
\<close>

theorem numeric_id_synthesis_witness:
  "getNextQuestion example_world = Some (Inr (Numeric example_numeric, example_world1))
   \<and> getNextQuestion later_world = Some (Inr (Numeric later_numeric, later_world1))
   \<and> lastQuestionId example_world1 = lastQuestionId later_world1
   \<and> clock_values example_world (clock_calls example_world) = 1700000000000
   \<and> clock_values later_world (clock_calls later_world) = 1700000000001
   \<and> num_id example_numeric \<noteq> num_id later_numeric"
proof -
  have c1: "getNextQuestion example_world = Some (Inr (Numeric example_numeric, example_world1))"
    by (simp add: getNextQuestion_def example_call1)
  have c2: "getNextQuestion later_world = Some (Inr (Numeric later_numeric, later_world1))"
    by (simp add: example_eval later_world_def later_numeric_def later_world1_def
        toString_def show_nat.simps digit_char_def)
  from numeric_id_synthesis[OF c1 c2] c1 c2 show ?thesis
    by (simp add: example_world_def example_world1_def example_world2_def later_world_def
        later_world1_def)
qed

subsection \<open>No immediate repeat\<close>

text \<open>
  C2: a batch is the result of sequential calls of \<open>getNextQuestion\<close>. After each call
  \<open>lastQuestionId\<close> holds the identifier of the pool entry or template the returned question
  was made from. For adjacent positions \<open>i\<close> and \<open>i + 1\<close> of the batch these two identifiers
  differ whenever the catalog that question \<open>i + 1\<close> comes from has more than one entry.
\<close>

theorem no_adjacent_repeat:
  assumes "getQuestionBatch_in pool tmpls count w = Some (Inr (qs, w'))"
  shows "\<exists>steps. sequential_calls pool tmpls (length qs) w = Some (Inr steps)
           \<and> map fst steps = qs
           \<and> (\<forall>i<length qs.
                 served_from pool tmpls (qs ! i) (lastQuestionId (snd (steps ! i))))
           \<and> (\<forall>i. i + 1 < length qs \<longrightarrow> 1 < catalog_size pool tmpls (qs ! (i + 1)) \<longrightarrow>
                 lastQuestionId (snd (steps ! i)) \<noteq> lastQuestionId (snd (steps ! (i + 1))))"
proof -
  from assms obtain steps
    where s: "sequential_calls pool tmpls (nat count) w = Some (Inr steps)"
      and qs: "qs = map fst steps"
    by (auto simp: getQuestionBatch_in_calls batch_of_calls_def split: option.splits sum.splits)
  from sequential_calls_length[OF s] qs have len: "length qs = nat count" by simp
  note src = sequential_calls_sources[OF s]
  have a: "\<forall>i<length qs. served_from pool tmpls (qs ! i) (lastQuestionId (snd (steps ! i)))"
    using src by (simp add: qs)
  have b: "\<forall>i. i + 1 < length qs \<longrightarrow> 1 < catalog_size pool tmpls (qs ! (i + 1)) \<longrightarrow>
                 lastQuestionId (snd (steps ! i)) \<noteq> lastQuestionId (snd (steps ! (i + 1)))"
  proof (intro allI impI)
    fix i
    assume i: "i + 1 < length qs" and c: "1 < catalog_size pool tmpls (qs ! (i + 1))"
    from i have i': "i + 1 < length steps" by (simp add: qs)
    with src have "1 < catalog_size pool tmpls (fst (steps ! (i + 1))) \<longrightarrow>
        lastQuestionId (snd (steps ! (i + 1))) \<noteq> lastQuestionId ((w # map snd steps) ! (i + 1))"
      by blast
    moreover have "(w # map snd steps) ! (i + 1) = snd (steps ! i)" using i' by simp
    moreover have "qs ! (i + 1) = fst (steps ! (i + 1))" using i' by (simp add: qs)
    ultimately show "lastQuestionId (snd (steps ! i)) \<noteq> lastQuestionId (snd (steps ! (i + 1)))"
      using c by simp
  qed
  from s len qs a b show ?thesis by auto
qed

text \<open>
  In \<open>alternating_world\<close> the second call first draws the entry served before and re-rolls.
\<close>

theorem no_adjacent_repeat_witness:
  "getQuestionBatch_in MCQ_POOL NUMERIC_TEMPLATES 2 alternating_world
     = Some (Inr ([MCQ (MCQ_POOL ! 10), MCQ (MCQ_POOL ! 1)], alternating_world2))
   \<and> (0::nat) + 1 < length [MCQ (MCQ_POOL ! 10), MCQ (MCQ_POOL ! 1)]
   \<and> 1 < catalog_size MCQ_POOL NUMERIC_TEMPLATES ([MCQ (MCQ_POOL ! 10), MCQ (MCQ_POOL ! 1)] ! (0 + 1))
   \<and> served_from MCQ_POOL NUMERIC_TEMPLATES (MCQ (MCQ_POOL ! 10)) (lastQuestionId alternating_world1)
   \<and> served_from MCQ_POOL NUMERIC_TEMPLATES (MCQ (MCQ_POOL ! 1)) (lastQuestionId alternating_world2)
   \<and> lastQuestionId alternating_world1 \<noteq> lastQuestionId alternating_world2"
proof -
  let ?qs = "[MCQ (MCQ_POOL ! 10), MCQ (MCQ_POOL ! 1)]"
  from no_adjacent_repeat[OF alternating_batch] obtain steps
    where s: "sequential_calls MCQ_POOL NUMERIC_TEMPLATES (length ?qs) alternating_world
                = Some (Inr steps)"
      and a: "\<forall>i<length ?qs. served_from MCQ_POOL NUMERIC_TEMPLATES (?qs ! i)
                (lastQuestionId (snd (steps ! i)))"
      and b: "\<forall>i. i + 1 < length ?qs \<longrightarrow>
                1 < catalog_size MCQ_POOL NUMERIC_TEMPLATES (?qs ! (i + 1)) \<longrightarrow>
                lastQuestionId (snd (steps ! i)) \<noteq> lastQuestionId (snd (steps ! (i + 1)))"
    by blast
  have l: "length ?qs = 2" by simp
  from s have "sequential_calls MCQ_POOL NUMERIC_TEMPLATES 2 alternating_world = Some (Inr steps)"
    by (simp only: l)
  with alternating_calls
  have steps: "steps = [(MCQ (MCQ_POOL ! 10), alternating_world1),
                        (MCQ (MCQ_POOL ! 1), alternating_world2)]"
    by simp
  have c: "1 < catalog_size MCQ_POOL NUMERIC_TEMPLATES (?qs ! (0 + 1))"
    by (simp add: catalog_size_def length_MCQ_POOL)
  from a[rule_format, of 0] a[rule_format, of 1] b[rule_format, of 0] c alternating_batch
  show ?thesis by (simp add: steps)
qed

subsection \<open>Question texts\<close>

text \<open>
  C3: the texts render dollar amounts with thousands separators. The compound interest and
  simple interest generators do (they call \<open>toLocaleString()\<close> on the principal), and they
  write \<open>year\<close> for one year. The generator of the monthly savings question puts \<open>monthly\<close>
  into the text as it is: when it draws 1000, the text reads \<open>$1000\<close>. In \<open>savings_world\<close>
  the first value of \<open>Math.random()\<close> is 0.95, which gives \<open>monthly = 1000\<close>.
\<close>

theorem savings_amount_without_separator:
  "questionText (fst (gen_future_value_annuity savings_world))
     = ''You save $1000 per month for 2 years at 4% annual interest (compounded monthly). What is the total future value?''
   \<and> questionText (compound_interest_question 1000 10 2)
     = ''You invest $1,000 at 10% annual compound interest. How much will you have after 2 years?''
   \<and> questionText (simple_interest_question 1000 5 1)
     = ''You deposit $1,000 in an account earning 5% simple interest per year. What is the total amount after 1 year?''"
  by (simp add: gen_future_value_annuity_def future_value_question_def compound_interest_question_def
      simple_interest_question_def savings_world_def random_from_def randInt_def Math_random_def
      Let_def toString_def toLocaleString_def show_nat.simps group_digits.simps digit_char_def)

subsection \<open>Tolerances\<close>

text \<open>
  C4: the tolerance of every numeric question, returned by \<open>getNextQuestion\<close> or contained
  in a batch, is not negative; it is 1 for a question from the Rule of 72 template (its
  identifier starts with the identifier of that template) and one percent of the correct
  answer for every other one.
\<close>

theorem numeric_tolerance:
  assumes "wf_random w"
  shows "(getNextQuestion w = Some (Inr (Numeric n, w')) \<longrightarrow>
            0 \<le> num_tolerance n
            \<and> (if prefix ''num-rule-of-72-'' (num_id n) then num_tolerance n = 1
               else num_tolerance n = num_correctAnswer n * 0.01))
         \<and> (getQuestionBatch count w = Some (Inr (qs, w'')) \<longrightarrow> Numeric m \<in> set qs \<longrightarrow>
            0 \<le> num_tolerance m
            \<and> (if prefix ''num-rule-of-72-'' (num_id m) then num_tolerance m = 1
               else num_tolerance m = num_correctAnswer m * 0.01))"
proof (intro conjI impI)
  assume "getNextQuestion w = Some (Inr (Numeric n, w'))"
  from getNextQuestion_tolerance[OF assms this]
  show "0 \<le> num_tolerance n" 
    and "if prefix ''num-rule-of-72-'' (num_id n) then num_tolerance n = 1
         else num_tolerance n = num_correctAnswer n * 0.01"
    by (simp_all add: tolerance_ok_def)
next
  assume b: "getQuestionBatch count w = Some (Inr (qs, w''))" and m: "Numeric m \<in> set qs"
  from b obtain steps k
    where s: "sequential_calls MCQ_POOL NUMERIC_TEMPLATES k w = Some (Inr steps)"
      and qs: "qs = map fst steps"
    by (auto simp: getQuestionBatch_def getQuestionBatch_in_calls batch_of_calls_def
        split: option.splits sum.splits)
  from m qs have "Numeric m \<in> set (map fst steps)" by simp
  from sequential_calls_tolerance[OF assms s this]
  show "0 \<le> num_tolerance m" 
    and "if prefix ''num-rule-of-72-'' (num_id m) then num_tolerance m = 1
         else num_tolerance m = num_correctAnswer m * 0.01"
    by (simp_all add: tolerance_ok_def)
qed

text \<open>
  The batch of three in \<open>example_world\<close> contains a Rule of 72 question.
\<close>

theorem numeric_tolerance_witness:
  "wf_random example_world
   \<and> getNextQuestion example_world = Some (Inr (Numeric example_numeric, example_world1))
   \<and> getQuestionBatch (Some 3) example_world
       = Some (Inr ([Numeric example_numeric, MCQ (MCQ_POOL ! 0), Numeric example_numeric],
                    example_world3))
   \<and> Numeric example_numeric \<in> set [Numeric example_numeric, MCQ (MCQ_POOL ! 0), Numeric example_numeric]
   \<and> prefix ''num-rule-of-72-'' (num_id example_numeric)
   \<and> num_tolerance example_numeric = 1"
proof -
  have call: "getNextQuestion example_world = Some (Inr (Numeric example_numeric, example_world1))"
    by (simp add: getNextQuestion_def example_call1)
  have p: "prefix ''num-rule-of-72-'' (num_id example_numeric)"
    by (simp add: example_numeric_def)
  from numeric_tolerance[OF wf_random_example_world, of example_numeric example_world1
      "Some 3" "[Numeric example_numeric, MCQ (MCQ_POOL ! 0), Numeric example_numeric]"
      example_world3 example_numeric]
    call example_batch p wf_random_example_world
  show ?thesis by simp
qed

subsection \<open>Batches\<close>

text \<open>
  C5: \<open>getQuestionBatch\<close> with the count \<open>n\<close> is \<open>n\<close> sequential calls of
  \<open>getNextQuestion\<close>, and the batch it returns has exactly \<open>n\<close> questions, in the order of the
  calls; with the count 0 it returns the empty batch; without a count it takes 10. It does
  return in every world in which \<open>Math.random()\<close> stays in its range and the index drawn by a
  re-roll loop never remains the same forever.
\<close>

theorem batch_has_count_items:
  "getQuestionBatch_in pool tmpls (int n) w = batch_of_calls w (sequential_calls pool tmpls n w)
   \<and> (getQuestionBatch_in pool tmpls (int n) w = Some (Inr (qs, w')) \<longrightarrow> length qs = n)
   \<and> getQuestionBatch_in pool tmpls 0 w = Some (Inr ([], w))
   \<and> getQuestionBatch None w = getQuestionBatch (Some 10) w
   \<and> (wf_random w \<and> rerolls_end w \<longrightarrow>
        (\<exists>qs w'. getQuestionBatch (Some (int n)) w = Some (Inr (qs, w')) \<and> length qs = n))"
proof (intro conjI impI)
  show eq: "getQuestionBatch_in pool tmpls (int n) w
              = batch_of_calls w (sequential_calls pool tmpls n w)" for pool tmpls
    by (simp add: getQuestionBatch_in_calls)
  show "getQuestionBatch_in pool tmpls 0 w = Some (Inr ([], w))"
    by (simp add: getQuestionBatch_in_def batch_loop.simps)
  show "getQuestionBatch None w = getQuestionBatch (Some 10) w"
    by (simp add: getQuestionBatch_def)
next
  assume "getQuestionBatch_in pool tmpls (int n) w = Some (Inr (qs, w'))"
  then obtain steps where "sequential_calls pool tmpls n w = Some (Inr steps)" "qs = map fst steps"
    by (auto simp: getQuestionBatch_in_calls batch_of_calls_def split: option.splits sum.splits)
  with sequential_calls_length[of pool tmpls n w steps] show "length qs = n" by simp
next
  assume "wf_random w \<and> rerolls_end w"
  then obtain steps where s: "sequential_calls MCQ_POOL NUMERIC_TEMPLATES n w = Some (Inr steps)"
    using sequential_calls_return[of w n] by blast
  from sequential_calls_length[OF s] s
  show "\<exists>qs w'. getQuestionBatch (Some (int n)) w = Some (Inr (qs, w')) \<and> length qs = n"
    by (simp add: getQuestionBatch_def getQuestionBatch_in_calls batch_of_calls_def)
qed

text \<open>
  A batch of two in \<open>alternating_world\<close>.
\<close>

theorem batch_has_count_items_witness:
  "getQuestionBatch_in MCQ_POOL NUMERIC_TEMPLATES (int 2) alternating_world
     = Some (Inr ([MCQ (MCQ_POOL ! 10), MCQ (MCQ_POOL ! 1)], alternating_world2))
   \<and> length [MCQ (MCQ_POOL ! 10), MCQ (MCQ_POOL ! 1)] = 2
   \<and> wf_random alternating_world \<and> rerolls_end alternating_world
   \<and> (\<exists>qs w'. getQuestionBatch (Some (int 2)) alternating_world = Some (Inr (qs, w'))
         \<and> length qs = 2)"
  using batch_has_count_items[of MCQ_POOL NUMERIC_TEMPLATES 2 alternating_world
      "[MCQ (MCQ_POOL ! 10), MCQ (MCQ_POOL ! 1)]" alternating_world2]
    alternating_batch wf_random_alternating_world rerolls_end_alternating_world
  by simp

subsection \<open>Rule of 72 and the test vectors\<close>

text \<open>
  C6: for every rate from 2 to 12 the answer of the Rule of 72 question is 72 / rate rounded
  to the nearest integer, although the generator first rounds 72 / rate to two decimals, and
  its tolerance is 1. The generator draws its rate from this range and builds exactly this
  question from it.
\<close>

theorem rule_of_72_rounding:
  "(2 \<le> rate \<and> rate \<le> 12 \<longrightarrow>
      correctAnswer (rule_of_72_question rate) = real_of_int (Math_round (72 / real_of_int rate))
      \<and> tolerance (rule_of_72_question rate) = Some 1)
   \<and> (wf_random w \<longrightarrow>
      2 \<le> fst (randInt 2 12 w) \<and> fst (randInt 2 12 w) \<le> 12
      \<and> fst (gen_rule_of_72 w) = rule_of_72_question (fst (randInt 2 12 w)))"
proof (intro conjI impI)
  assume "2 \<le> rate \<and> rate \<le> 12"
  then have "rate \<in> {2, 3, 4, 5, 6, 7, 8, 9, 10, 11, 12}" by (simp; arith)
  then show "correctAnswer (rule_of_72_question rate) = real_of_int (Math_round (72 / real_of_int rate))"
    by (auto simp add: rule_of_72_question_def round2_def Math_round_def Let_def)
  show "tolerance (rule_of_72_question rate) = Some 1"
    by (simp add: rule_of_72_question_def Let_def)
next
  assume "wf_random w"
  from randInt_range[OF this, of 2 12]
  show "2 \<le> fst (randInt 2 12 w)" "fst (randInt 2 12 w) \<le> 12" by simp_all
  show "fst (gen_rule_of_72 w) = rule_of_72_question (fst (randInt 2 12 w))"
    by (simp add: gen_rule_of_72_def split_beta)
qed

text \<open>At rate 8 the answer is 9; in \<open>example_world\<close> the generator draws the rate 9.\<close>

theorem rule_of_72_rounding_witness:
  "(2::int) \<le> 8 \<and> (8::int) \<le> 12 \<and> wf_random example_world
   \<and> correctAnswer (rule_of_72_question 8) = 9 \<and> tolerance (rule_of_72_question 8) = Some 1
   \<and> fst (gen_rule_of_72 example_world) = rule_of_72_question 9"
  using rule_of_72_rounding[of 8 example_world] wf_random_example_world
  by (simp add: Math_round_def randInt_def Math_random_def example_world_def random_from_def)

text \<open>
  C7: on the test vectors of the specification the formulas are exact. Compound interest on
  1000 at 10 percent for 2 years gives 1210.00, simple interest on 1000 at 5 percent for
  3 years gives 1150.00, and the future value of 100 a month at 12 percent for 1 year
  gives 1268.25 after rounding to two decimals.
\<close>

theorem formula_test_vectors:
  "correctAnswer (compound_interest_question 1000 10 2) = 1210
   \<and> correctAnswer (simple_interest_question 1000 5 3) = 1150
   \<and> correctAnswer (future_value_question 100 12 1) = 1268.25"
  by (simp add: compound_interest_question_def simple_interest_question_def
      future_value_question_def round2_def Math_round_def Math_pow_def Let_def power_divide)

subsection \<open>Negative counts\<close>

text \<open>
  C8 as the specification states it, that a negative count makes \<open>getQuestionBatch\<close> throw,
  does not hold: with the count \<open>-1\<close> the call returns the empty batch.
\<close>

theorem negative_count_returns_empty_example:
  "getQuestionBatch (Some (- 1)) example_world = Some (Inr ([], example_world))"
  by (simp add: getQuestionBatch_def getQuestionBatch_in_def batch_loop.simps)

text \<open>
  C8, amended: with a negative count \<open>getQuestionBatch\<close> returns the empty batch; it throws
  nothing, never calls \<open>getNextQuestion\<close> and leaves the world as it was.
\<close>

theorem negative_count_returns_empty:
  "count < 0 \<Longrightarrow> getQuestionBatch_in pool tmpls count w = Some (Inr ([], w))"
  by (simp add: getQuestionBatch_in_def batch_loop.simps)

theorem negative_count_returns_empty_witness:
  "(- 5 :: int) < 0
   \<and> getQuestionBatch_in MCQ_POOL NUMERIC_TEMPLATES (- 5) alternating_world
       = Some (Inr ([], alternating_world))"
  using negative_count_returns_empty[of "- 5" MCQ_POOL NUMERIC_TEMPLATES alternating_world]
  by simp

subsection \<open>Catalogs of one entry\<close>

text \<open>
  C9: with a pool of one entry and a template set of one entry, each re-roll loop returns
  after its first draw, whatever \<open>lastQuestionId\<close> holds, and \<open>getNextQuestion\<close> returns a
  question.
\<close>

theorem single_entry_terminates:
  assumes "length pool = 1" and "length tmpls = 1" and "wf_random w"
  shows "pick_question pool w = Some (Inr (pool ! 0, w\<lparr>random_calls := random_calls w + 1\<rparr>))
         \<and> pick_template tmpls w = Some (Inr (tmpls ! 0, w\<lparr>random_calls := random_calls w + 1\<rparr>))
         \<and> (\<exists>q w'. getNextQuestion_in pool tmpls w = Some (Inr (q, w')))"
proof -
  have idx: "drawn_index v (Suc 0) (random_calls v) = 0" if "wf_random v" for v
    using drawn_index_range[OF that, of "Suc 0" "random_calls v"] by simp
  have q: "\<And>v. wf_random v \<Longrightarrow>
      pick_question pool v = Some (Inr (pool ! 0, v\<lparr>random_calls := random_calls v + 1\<rparr>))"
    using assms(1) randInt_index[of "length pool"]
    by (subst pick_question.simps) (simp add: idx array_get_def)
  have t: "\<And>v. wf_random v \<Longrightarrow>
      pick_template tmpls v = Some (Inr (tmpls ! 0, v\<lparr>random_calls := random_calls v + 1\<rparr>))"
    using assms(2) randInt_index[of "length tmpls"]
    by (subst pick_template.simps) (simp add: idx array_get_def)
  let ?w1 = "w\<lparr>random_calls := random_calls w + 1\<rparr>"
  have wf1: "wf_random ?w1" using assms(3) by (simp add: wf_random_def)
  have "\<exists>q w'. getNextQuestion_in pool tmpls w = Some (Inr (q, w'))"
    using q[OF wf1] t[OF wf1]
    by (simp add: getNextQuestion_in_def Math_random_def Date_now_def split_beta)
  with q[OF assms(3)] t[OF assms(3)] show ?thesis by simp
qed

text \<open>
  In \<open>example_world2\<close> the question served last is the only entry of the pool, and the loop
  returns it again.
\<close>

theorem single_entry_terminates_witness:
  "length [MCQ_POOL ! 0] = 1 \<and> length [NUMERIC_TEMPLATES ! 2] = 1 \<and> wf_random example_world2
   \<and> lastQuestionId example_world2 = Some (mcq_id (MCQ_POOL ! 0))
   \<and> pick_question [MCQ_POOL ! 0] example_world2
       = Some (Inr (MCQ_POOL ! 0, example_world2\<lparr>random_calls := 6\<rparr>))
   \<and> (\<exists>q w'. getNextQuestion_in [MCQ_POOL ! 0] [NUMERIC_TEMPLATES ! 2] example_world2
                = Some (Inr (q, w')))"
  using single_entry_terminates[of "[MCQ_POOL ! 0]" "[NUMERIC_TEMPLATES ! 2]" example_world2]
    wf_random_example_world2
  by (simp add: example_world2_def example_world_def MCQ_POOL_def)

subsection \<open>The fallback tolerance\<close>

text \<open>
  C10: every generator of \<open>NUMERIC_TEMPLATES\<close> returns a tolerance, in every world, so
  \<open>getNextQuestion\<close> never falls back to one percent of the answer: the tolerance of a numeric
  question it returns is the one its generator returned.
\<close>

theorem shipped_generators_define_tolerance:
  "(\<forall>t\<in>set NUMERIC_TEMPLATES. tolerance (fst (generator t w0)) \<noteq> None)
   \<and> (getNextQuestion w = Some (Inr (Numeric n, w')) \<longrightarrow>
        (\<exists>t\<in>set NUMERIC_TEMPLATES. \<exists>w2. only_draws w w2
           \<and> num_correctAnswer n = correctAnswer (fst (generator t w2))
           \<and> tolerance (fst (generator t w2)) = Some (num_tolerance n)))"
proof (intro conjI impI)
  show all: "\<forall>t\<in>set NUMERIC_TEMPLATES. tolerance (fst (generator t w0)) \<noteq> None" for w0
    by (simp add: NUMERIC_TEMPLATES_def gen_compound_interest_def gen_simple_interest_def
        gen_rule_of_72_def gen_future_value_annuity_def question_tolerance split_beta
        del: not_None_eq)
  assume "getNextQuestion w = Some (Inr (Numeric n, w'))"
  with getNextQuestion_in_Numeric[of MCQ_POOL NUMERIC_TEMPLATES w n w']
  obtain t w2 where t: "t \<in> set NUMERIC_TEMPLATES" and w2: "only_draws w w2"
    and ca: "num_correctAnswer n = correctAnswer (fst (generator t w2))"
    and tol: "num_tolerance n = (case tolerance (fst (generator t w2)) of
                                       Some tol \<Rightarrow> tol
                                     | None \<Rightarrow> correctAnswer (fst (generator t w2)) * 0.01)"
    by (auto simp: getNextQuestion_def)
  from all[of w2] t obtain x where "tolerance (fst (generator t w2)) = Some x" by auto
  with tol have "tolerance (fst (generator t w2)) = Some (num_tolerance n)" by simp
  with t w2 ca show "\<exists>t\<in>set NUMERIC_TEMPLATES. \<exists>w2. only_draws w w2
           \<and> num_correctAnswer n = correctAnswer (fst (generator t w2))
           \<and> tolerance (fst (generator t w2)) = Some (num_tolerance n)" by blast
qed

text \<open>The first call in \<open>example_world\<close> returns a numeric question.\<close>

theorem shipped_generators_define_tolerance_witness:
  "NUMERIC_TEMPLATES ! 2 \<in> set NUMERIC_TEMPLATES
   \<and> tolerance (fst (generator (NUMERIC_TEMPLATES ! 2) example_world)) \<noteq> None
   \<and> getNextQuestion example_world = Some (Inr (Numeric example_numeric, example_world1))
   \<and> (\<exists>t\<in>set NUMERIC_TEMPLATES. \<exists>w2. only_draws example_world w2
           \<and> num_correctAnswer example_numeric = correctAnswer (fst (generator t w2))
           \<and> tolerance (fst (generator t w2)) = Some (num_tolerance example_numeric))"
proof -
  have in_set: "NUMERIC_TEMPLATES ! 2 \<in> set NUMERIC_TEMPLATES"
    by (simp add: NUMERIC_TEMPLATES_def)
  have call: "getNextQuestion example_world = Some (Inr (Numeric example_numeric, example_world1))"
    by (simp add: getNextQuestion_def example_call1)
  from shipped_generators_define_tolerance[of example_world example_world example_numeric example_world1]
    in_set call
  show ?thesis by blast
qed

end
